theory Spec2Isabelle
  imports Main "HOL-Library.Sublist"
begin

section \<open>The browser session controller of puppet-web/browser.ts\<close>

text \<open>
  The class \<open>Browser\<close> owns a lifecycle state (\<open>this.state\<close>), a driver and a
  cookie store, and talks to the operating system through \<open>psTree\<close> and
  \<open>process.kill\<close>. The model below keeps the state as a record, threads it through
  every method, and writes every call to a collaborator into a trace. What a
  collaborator answers is a parameter of the model (the record \<open>env\<close>): each answer
  may depend on the whole trace so far. A rejected promise and a thrown exception are
  the left injection of a sum. Calls to the logger are left out: they neither
  return a value nor change the session.
\<close>

subsection \<open>JavaScript values and errors\<close>

datatype js_value = JUndefined | JNull | JBool bool | JNum int | JStr string

datatype error = Error string

fun message :: "error \<Rightarrow> string" where
  "message (Error m) = m"

fun truthy :: "js_value \<Rightarrow> bool" where
  "truthy JUndefined = False"
| "truthy JNull = False"
| "truthy (JBool b) = b"
| "truthy (JNum n) = (n \<noteq> 0)"
| "truthy (JStr s) = (s \<noteq> [])"

definition digit_char :: "nat \<Rightarrow> char" where
  "digit_char d = ''0123456789'' ! (d mod 10)"

fun show_nat :: "nat \<Rightarrow> string" where
  "show_nat n = (if n < 10 then [digit_char n] else show_nat (n div 10) @ [digit_char n])"

declare show_nat.simps [simp del]

definition show_int :: "int \<Rightarrow> string" where
  "show_int i = (if i < 0 then CHR ''-'' # show_nat (nat (- i)) else show_nat (nat i))"

text \<open>String concatenation \<open>'' + v\<close> of a value.\<close>

fun js_string :: "js_value \<Rightarrow> string" where
  "js_string JUndefined = ''undefined''"
| "js_string JNull = ''null''"
| "js_string (JBool b) = (if b then ''true'' else ''false'')"
| "js_string (JNum n) = show_int n"
| "js_string (JStr s) = s"

subsection \<open>The state switch\<close>

datatype lifecycle = Open | Close

text \<open>
  Modelled from the spec: the class \<open>StateSwitch\<close> behind \<open>this.state\<close> is imported
  from the package \<open>state-switch\<close> and is not part of the sources. Section 3 of the
  specification gives its data: the desired state, the actual state, and whether a
  transition is under way.
\<close>

record state_switch =
  target :: lifecycle
  current :: lifecycle
  inProcess :: bool

text \<open>
  Modelled from the spec: the constructor of \<open>StateSwitch\<close>, absent from the sources.
  Line 51 starts the switch at \<open>close\<close>; this is the initial closed state of the
  specification, in which target and current agree and no transition is under way.
\<close>

definition new_StateSwitch :: "lifecycle \<Rightarrow> state_switch" where
  "new_StateSwitch initial = \<lparr>target = initial, current = initial, inProcess = False\<rparr>"

text \<open>
  Modelled from the spec: \<open>state.target(v)\<close> of the absent \<open>StateSwitch\<close>, the
  \<open>setTarget\<close> of section 4.1: it stores the desired state.
\<close>

definition setTarget :: "lifecycle \<Rightarrow> state_switch \<Rightarrow> state_switch" where
  "setTarget v s = s\<lparr>target := v\<rparr>"

text \<open>
  Modelled from the spec: \<open>state.current(v, stable)\<close> of the absent \<open>StateSwitch\<close>,
  the \<open>setCurrent\<close> of section 4.1: with \<open>stable\<close> false it marks \<open>inProcess\<close> and
  records the state as provisional; with \<open>stable\<close> true, the default, it clears
  \<open>inProcess\<close> and commits the state.
\<close>

definition setCurrent :: "lifecycle \<Rightarrow> bool \<Rightarrow> state_switch \<Rightarrow> state_switch" where
  "setCurrent v stbl s = s\<lparr>current := v, inProcess := \<not> stbl\<rparr>"

text \<open>
  Modelled from the spec: \<open>state.stable()\<close> of the absent \<open>StateSwitch\<close>, the
  \<open>isStable\<close> of section 4.1. By section 3 it is derived: true iff target and current
  agree and no transition is under way. \<open>state.inprocess()\<close> is the field
  \<open>inProcess\<close>.
\<close>

definition isStable :: "state_switch \<Rightarrow> bool" where
  "isStable s = (target s = current s \<and> \<not> inProcess s)"

subsection \<open>Collaborators, trace and session\<close>

text \<open>A child process as \<open>psTree\<close> reports it; a field the platform leaves out is \<open>None\<close>.\<close>

record process =
  PID :: nat
  COMMAND :: "string option"
  COMM :: "string option"

datatype event =
    Driver_init
  | Driver_get string
  | Driver_close
  | Driver_quit
  | Driver_executeScript string
  | Cookie_load
  | Set_timeout nat
  | Clear_timeout
  | Timeout_fired
  | Ps_tree
  | Process_kill nat
  | Retry_delay nat
  | Emit_dead js_value

text \<open>
  How \<open>driver.get\<close> fares against the timer of its attempt: it resolves or rejects
  before the timer fires, or it has not settled when the timer fires.
\<close>

datatype get_outcome = Resolved | Rejected error | Unsettled

text \<open>
  The environment. Every answer is a function of the trace at the moment of the
  call. \<open>other_callers\<close> is what other control flows do to the state switch while a
  method is suspended in an \<open>await\<close>; it is the identity when calls do not overlap.
\<close>

record env =
  driver_init :: "event list \<Rightarrow> error option"
  driver_get :: "event list \<Rightarrow> string \<Rightarrow> get_outcome"
  driver_close :: "event list \<Rightarrow> error option"
  driver_quit :: "event list \<Rightarrow> error option"
  driver_executeScript :: "event list \<Rightarrow> string \<Rightarrow> error + js_value"
  cookie_hostname :: "event list \<Rightarrow> string option"
  cookie_load :: "event list \<Rightarrow> error option"
  psTree :: "event list \<Rightarrow> error + process list"
  process_kill :: "event list \<Rightarrow> nat \<Rightarrow> error option"
  other_callers :: "event list \<Rightarrow> state_switch \<Rightarrow> state_switch"

text \<open>
  The session: \<open>this.state\<close>, whether \<open>this.driver\<close> is set,
  \<open>this.setting.head\<close>, and the trace. The constructor sets the driver and the type
  of the field has no \<open>null\<close>; \<open>dead\<close> is the one method that tests it, and the
  methods that call the driver are modelled for a session that has one.
\<close>

record browser =
  state :: state_switch
  driver_set :: bool
  head :: string
  trace :: "event list"

definition new_Browser :: "string \<Rightarrow> browser" where
  "new_Browser h = \<lparr>state = new_StateSwitch Close, driver_set = True, head = h, trace = []\<rparr>"

type_synonym 'a result = "(error + 'a) \<times> browser"

text \<open>A synchronous effect: the events are appended and nothing else can run.\<close>

definition emit :: "event list \<Rightarrow> browser \<Rightarrow> browser" where
  "emit evs b = b\<lparr>trace := trace b @ evs\<rparr>"

text \<open>
  An awaited effect: the events are appended, and before the method resumes the
  other callers have had their turn on the state switch.
\<close>

definition await :: "env \<Rightarrow> event list \<Rightarrow> browser \<Rightarrow> browser" where
  "await E evs b =
     (let tr = trace b @ evs in b\<lparr>state := other_callers E tr (state b), trace := tr\<rparr>)"

subsection \<open>dead\<close>

text \<open>
  \<open>dead(forceReason?)\<close>, lines 446 to 498. An omitted argument is \<open>JUndefined\<close>.
  The result is the returned boolean and the session, whose trace has grown by the
  \<open>dead\<close> event when one is emitted.
\<close>

definition dead :: "js_value \<Rightarrow> browser \<Rightarrow> bool \<times> browser" where
  "dead forceReason b =
     (if target (state b) = Close \<or> current (state b) = Close then (True, b)
      else
        let (isDead, msg) =
              (if truthy forceReason then (True, forceReason)
               else if \<not> driver_set b then (True, JStr ''no driver or session'')
               else (False, JUndefined))
        in if isDead then
             (if target (state b) = Open \<and> current (state b) = Open \<and> isStable (state b)
              then (isDead, emit [Emit_dead msg] b)
              else (isDead, b))
           else (isDead, b))"

subsection \<open>Promises: sequencing, catch and finally\<close>

definition resolve :: "'a \<Rightarrow> browser \<Rightarrow> 'a result" where
  "resolve v b = (Inr v, b)"

definition throw :: "error \<Rightarrow> browser \<Rightarrow> 'a result" where
  "throw e b = (Inl e, b)"

definition andThen :: "(browser \<Rightarrow> 'a result) \<Rightarrow> ('a \<Rightarrow> browser \<Rightarrow> 'b result) \<Rightarrow> browser \<Rightarrow> 'b result" where
  "andThen m f b = (case m b of (Inl e, b') \<Rightarrow> (Inl e, b') | (Inr v, b') \<Rightarrow> f v b')"

definition try_catch :: "(browser \<Rightarrow> 'a result) \<Rightarrow> (error \<Rightarrow> browser \<Rightarrow> 'a result) \<Rightarrow> browser \<Rightarrow> 'a result" where
  "try_catch m h b = (case m b of (Inl e, b') \<Rightarrow> h e b' | (Inr v, b') \<Rightarrow> (Inr v, b'))"

text \<open>A \<open>finally\<close> block that completes normally keeps the completion of its \<open>try\<close>.\<close>

definition try_finally :: "(browser \<Rightarrow> 'a result) \<Rightarrow> (browser \<Rightarrow> browser) \<Rightarrow> browser \<Rightarrow> 'a result" where
  "try_finally m f b = (case m b of (r, b') \<Rightarrow> (r, f b'))"

text \<open>An awaited call that settles with \<open>r\<close>, and a synchronous call that returns or throws.\<close>

definition settle :: "env \<Rightarrow> event list \<Rightarrow> error option \<Rightarrow> browser \<Rightarrow> unit result" where
  "settle E evs r b = (case r of None \<Rightarrow> (Inr (), await E evs b) | Some e \<Rightarrow> (Inl e, await E evs b))"

definition complete :: "event list \<Rightarrow> error option \<Rightarrow> browser \<Rightarrow> unit result" where
  "complete evs r b = (case r of None \<Rightarrow> (Inr (), emit evs b) | Some e \<Rightarrow> (Inl e, emit evs b))"

definition drv_init :: "env \<Rightarrow> browser \<Rightarrow> unit result" where
  "drv_init E b = settle E [Driver_init] (driver_init E (trace b)) b"

definition drv_close :: "env \<Rightarrow> browser \<Rightarrow> unit result" where
  "drv_close E b = settle E [Driver_close] (driver_close E (trace b)) b"

definition drv_quit :: "env \<Rightarrow> browser \<Rightarrow> unit result" where
  "drv_quit E b = settle E [Driver_quit] (driver_quit E (trace b)) b"

definition loadCookie :: "env \<Rightarrow> browser \<Rightarrow> unit result" where
  "loadCookie E b = settle E [Cookie_load] (cookie_load E (trace b)) b"

definition drv_executeScript :: "env \<Rightarrow> string \<Rightarrow> browser \<Rightarrow> js_value result" where
  "drv_executeScript E script b =
     (driver_executeScript E (trace b) script, await E [Driver_executeScript script] b)"

subsection \<open>open\<close>

definition TIMEOUT :: nat where
  "TIMEOUT = 60 * 1000"

text \<open>
  One attempt, lines 156 to 178: the timer is set, \<open>driver.get\<close> is called, and the
  promise settles with whichever comes first. \<open>ttl\<close> is the counter as the loop body
  sees it, after the decrement of \<open>while (ttl--)\<close>.
\<close>

definition get_or_timeout :: "env \<Rightarrow> string \<Rightarrow> nat \<Rightarrow> browser \<Rightarrow> unit result" where
  "get_or_timeout E openUrl ttl b =
     (case driver_get E (trace b @ [Set_timeout TIMEOUT]) openUrl of
        Resolved \<Rightarrow>
          (Inr (), await E [Set_timeout TIMEOUT, Driver_get openUrl, Clear_timeout] b)
      | Rejected e \<Rightarrow>
          (Inl e, await E [Set_timeout TIMEOUT, Driver_get openUrl, Clear_timeout] b)
      | Unsettled \<Rightarrow>
          (Inl (Error (''timeout after '' @ show_nat ((TIMEOUT + 500) div 1000) @ '' seconds''
                       @ ''at ttl:'' @ show_nat ttl)),
           await E [Set_timeout TIMEOUT, Driver_get openUrl, Timeout_fired] b))"

text \<open>Lines 186 to 188: \<open>driver.close()\<close>, \<open>driver.quit()\<close>, \<open>driver.init()\<close>, each awaited.\<close>

definition reset_driver :: "env \<Rightarrow> browser \<Rightarrow> unit result" where
  "reset_driver E = andThen (drv_close E) (\<lambda>_. andThen (drv_quit E) (\<lambda>_. drv_init E))"

text \<open>
  The loop \<open>while (ttl--)\<close>, lines 153 to 195. The third argument is \<open>ttl\<close> before
  the test; at \<open>0\<close> the loop is left and lines 193 to 195 run.
\<close>

fun open_loop :: "env \<Rightarrow> string \<Rightarrow> nat \<Rightarrow> browser \<Rightarrow> unit result" where
  "open_loop E openUrl 0 b =
     andThen (drv_close E) (\<lambda>_. andThen (drv_quit E)
       (\<lambda>_. throw (Error ''open fail because ttl expired''))) b"
| "open_loop E openUrl (Suc ttl) b =
     (case get_or_timeout E openUrl ttl b of
        (Inr u, b1) \<Rightarrow> (Inr (), b1)
      | (Inl e, b1) \<Rightarrow>
          (case reset_driver E b1 of
             (Inl e', b2) \<Rightarrow> (Inl e', b2)
           | (Inr u, b2) \<Rightarrow> open_loop E openUrl ttl b2))"

text \<open>
  \<open>open(url?)\<close>, lines 136 to 196: an omitted or empty \<open>url\<close> is falsy, and so is
  a missing or empty host name.
\<close>

definition "open" :: "env \<Rightarrow> string option \<Rightarrow> browser \<Rightarrow> unit result" where
  "open E url b =
     (case url of
        Some (c # cs) \<Rightarrow> open_loop E (c # cs) 3 b
      | _ \<Rightarrow>
        (case cookie_hostname E (trace b) of
           Some (c # cs) \<Rightarrow> open_loop E (''https://'' @ c # cs) 3 b
         | _ \<Rightarrow> (Inl (Error ''hostname unknown''), b)))"

subsection \<open>getBrowserPidList\<close>

definition to_lower :: "char \<Rightarrow> char" where
  "to_lower c =
     (case map_of (zip ''ABCDEFGHIJKLMNOPQRSTUVWXYZ'' ''abcdefghijklmnopqrstuvwxyz'') c of
        Some l \<Rightarrow> l | None \<Rightarrow> c)"

text \<open>Some suffix of the string satisfies \<open>P\<close>: the regular expression matches somewhere.\<close>

fun somewhere :: "(string \<Rightarrow> bool) \<Rightarrow> string \<Rightarrow> bool" where
  "somewhere P [] = P []"
| "somewhere P (c # cs) = (P (c # cs) \<or> somewhere P cs)"

text \<open>
  The two expressions of lines 339 to 355, both with the flag \<open>i\<close>:
  \<open>phantomjs\<close>, and \<open>chrome(?!driver)|chromium\<close>, where \<open>chrome\<close> must not be
  followed at once by \<open>driver\<close>.
\<close>

datatype regex = Rx_phantomjs | Rx_chrome

definition regexText :: "string \<Rightarrow> regex option" where
  "regexText h =
     (if h = ''phantomjs'' then Some Rx_phantomjs
      else if h = ''chrome'' \<or> h = ''chrome-headless'' then Some Rx_chrome
      else None)"

fun matchRegex_test :: "regex \<Rightarrow> string \<Rightarrow> bool" where
  "matchRegex_test Rx_phantomjs s = somewhere (prefix ''phantomjs'') (map to_lower s)"
| "matchRegex_test Rx_chrome s =
     (somewhere (\<lambda>t. prefix ''chrome'' t \<and> \<not> prefix ''chromedriver'' t) (map to_lower s)
      \<or> somewhere (prefix ''chromium'') (map to_lower s))"

text \<open>A missing field concatenates as \<open>undefined\<close> in \<open>'' + child.COMMAND + child.COMM\<close>.\<close>

definition field_string :: "string option \<Rightarrow> string" where
  "field_string f = (case f of None \<Rightarrow> ''undefined'' | Some s \<Rightarrow> s)"

definition browser_pids :: "regex \<Rightarrow> process list \<Rightarrow> nat list" where
  "browser_pids rx children =
     map PID (filter (\<lambda>child. matchRegex_test rx
                (field_string (COMMAND child) @ field_string (COMM child))) children)"

text \<open>Lines 321 to 372: \<open>psTree\<close> is awaited first, then the head is looked at.\<close>

definition getBrowserPidList :: "env \<Rightarrow> browser \<Rightarrow> nat list result" where
  "getBrowserPidList E b =
     (case psTree E (trace b) of
        Inl err \<Rightarrow> (Inl err, await E [Ps_tree] b)
      | Inr children \<Rightarrow>
          (case regexText (head b) of
             None \<Rightarrow> (Inl (Error (''unsupported head: '' @ head b)), await E [Ps_tree] b)
           | Some rx \<Rightarrow> (Inr (browser_pids rx children), await E [Ps_tree] b)))"

subsection \<open>clean\<close>

text \<open>
  Modelled from the spec: the loop of \<open>retryPromise\<close>, which is imported from the
  package \<open>retry-promise\<close> and is not part of the sources. \<open>retry_from E n i\<close>
  runs attempt \<open>i\<close> with \<open>n\<close> more attempts left after it. By sections 4.3
  and 9 of the specification an attempt that succeeds ends the polling, a failed
  attempt is followed by a delay that grows linearly in units of \<open>backoff\<close>
  milliseconds (\<open>i * backoff\<close> after attempt \<open>i\<close>, which stays within the bound
  \<open>max * max * backoff / 2\<close> of the specification), and when the budget is used up
  the failure of the last attempt is the failure of the whole.
\<close>

fun retry_from :: "env \<Rightarrow> nat \<Rightarrow> nat \<Rightarrow> nat \<Rightarrow> (nat \<Rightarrow> browser \<Rightarrow> 'a result) \<Rightarrow> browser \<Rightarrow> 'a result" where
  "retry_from E 0 i backoff f b = f i b"
| "retry_from E (Suc n) i backoff f b =
     (case f i b of
        (Inr v, b1) \<Rightarrow> (Inr v, b1)
      | (Inl e, b1) \<Rightarrow> retry_from E n (Suc i) backoff f (await E [Retry_delay (i * backoff)] b1))"

text \<open>
  Modelled from the spec: \<open>retryPromise({max, backoff}, fn)\<close>, absent from the
  sources: the retry with backoff of section 9, taking the number of attempts, the
  unit delay and the operation. The operation is polled up to \<open>max\<close> times, the
  first time at once (section 8: no delay when the first poll succeeds).
\<close>

definition retryPromise :: "env \<Rightarrow> nat \<Rightarrow> nat \<Rightarrow> (nat \<Rightarrow> browser \<Rightarrow> 'a result) \<Rightarrow> browser \<Rightarrow> 'a result" where
  "retryPromise E max_attempts backoff f b = retry_from E (max_attempts - 1) 1 backoff f b"

text \<open>Lines 294 to 300: \<open>process.kill\<close> is synchronous, and what it throws is caught.\<close>

definition kill_pid :: "env \<Rightarrow> nat \<Rightarrow> browser \<Rightarrow> unit result" where
  "kill_pid E pid b =
     try_catch (complete [Process_kill pid] (process_kill E (trace b) pid)) (\<lambda>e. resolve ()) b"

fun kill_each :: "env \<Rightarrow> nat list \<Rightarrow> browser \<Rightarrow> browser" where
  "kill_each E [] b = b"
| "kill_each E (pid # pids) b = kill_each E pids (snd (kill_pid E pid b))"

text \<open>The callback of lines 310 to 318.\<close>

definition poll :: "env \<Rightarrow> nat \<Rightarrow> browser \<Rightarrow> unit result" where
  "poll E attempt =
     andThen (getBrowserPidList E)
       (\<lambda>pidList. if length pidList > 0
                   then throw (Error (''browser number: '' @ show_nat (length pidList)))
                   else resolve ())"

text \<open>\<open>clean(kill = false)\<close>, lines 281 to 319.\<close>

definition clean :: "env \<Rightarrow> bool \<Rightarrow> browser \<Rightarrow> unit result" where
  "clean E kill =
     andThen
       (if kill
        then andThen (getBrowserPidList E) (\<lambda>pidList b. (Inr (), kill_each E pidList b))
        else resolve ())
       (\<lambda>_. retryPromise E 15 100 (poll E))"

subsection \<open>quit\<close>

text \<open>
  The synchronous head of \<open>quit\<close>, lines 222 to 234: the guard, then the target and
  the provisional current state.
\<close>

definition quit_begin :: "state_switch \<Rightarrow> error + state_switch" where
  "quit_begin s =
     (if current s = Close then
        Inl (Error (if inProcess s
          then ''quit() fail: on a browser with state.current():`close` and inprocess():`true` ?''
          else ''quit() fail: on a already quit-ed browser''))
      else Inr (setCurrent Close False (setTarget Close s)))"

text \<open>
  Lines 236 to 276. Each of \<open>driver.close()\<close> and \<open>driver.quit()\<close> has its own
  \<open>.catch\<close>; \<open>clean()\<close> is tried again with \<open>kill\<close> set; the outer \<open>catch\<close> takes
  whatever is left, and \<open>finally\<close> commits the state.
\<close>

definition quit_shutdown :: "env \<Rightarrow> browser \<Rightarrow> unit result" where
  "quit_shutdown E =
     try_finally
       (try_catch
          (andThen (try_catch (drv_close E) (\<lambda>e. resolve ()))
             (\<lambda>_. andThen (try_catch (drv_quit E) (\<lambda>e. resolve ()))
                (\<lambda>_. try_catch (clean E False) (\<lambda>e. clean E True))))
          (\<lambda>e. resolve ()))
       (\<lambda>b. b\<lparr>state := setCurrent Close True (state b)\<rparr>)"

definition quit :: "env \<Rightarrow> browser \<Rightarrow> unit result" where
  "quit E b =
     (case quit_begin (state b) of
        Inl e \<Rightarrow> (Inl e, b)
      | Inr s \<Rightarrow> quit_shutdown E (b\<lparr>state := s\<rparr>))"

subsection \<open>init\<close>

text \<open>Lines 95 to 118, the body of the \<open>try\<close>.\<close>

definition init_body :: "env \<Rightarrow> string \<Rightarrow> browser \<Rightarrow> unit result" where
  "init_body E jumpUrl =
     andThen (drv_init E)
       (\<lambda>_. andThen (open E (Some jumpUrl))
          (\<lambda>_. andThen (try_catch (loadCookie E) (\<lambda>e. resolve ()))
             (\<lambda>_. andThen (open E None)
                (\<lambda>_ b. if target (state b) \<noteq> Open
                        then (Inl (Error ''init() open() done, but state.target() is set to close after that. has to quit().''), b)
                        else (Inr (), b\<lparr>state := setCurrent Open True (state b)\<rparr>)))))"

text \<open>\<open>init()\<close>, lines 68 to 127. A host name \<open>null\<close> prints as \<open>null\<close> in the template.\<close>

definition init :: "env \<Rightarrow> browser \<Rightarrow> unit result" where
  "init E b =
     (if current (state b) = Open then
        (Inl (Error (if inProcess (state b)
           then ''init() fail: current state is `open`-`ing`''
           else ''init() fail: current state is `open`'')), b)
      else
        let b1 = b\<lparr>state := setCurrent Open False (setTarget Open (state b))\<rparr>;
            hostname = (case cookie_hostname E (trace b1) of None \<Rightarrow> ''null'' | Some h \<Rightarrow> h);
            jumpUrl = ''https://'' @ hostname @ ''/zh_CN/htmledition/v2/images/webwxgeticon.jpg''
        in try_catch (init_body E jumpUrl)
             (\<lambda>err. andThen (quit E) (\<lambda>_. throw err)) b1)"

subsection \<open>execute and readyLive\<close>

text \<open>\<open>execute(script)\<close>, lines 374 to 400; a driver error is thrown on unchanged.\<close>

definition execute :: "env \<Rightarrow> string \<Rightarrow> browser \<Rightarrow> js_value result" where
  "execute E script b =
     (case dead JUndefined b of
        (True, b1) \<Rightarrow> (Inl (Error ''Browser.execute() browser dead''), b1)
      | (False, b1) \<Rightarrow> drv_executeScript E script b1)"

text \<open>
  \<open>readyLive()\<close>, lines 420 to 444. In the \<open>catch\<close>, \<open>e && e.message\<close> is the
  message, an \<open>Error\<close> being truthy.
\<close>

definition readyLive :: "env \<Rightarrow> browser \<Rightarrow> bool \<times> browser" where
  "readyLive E b =
     (case dead JUndefined b of
        (True, b1) \<Rightarrow> (False, b1)
      | (False, b1) \<Rightarrow>
          (case execute E ''return 1+1'' b1 of
             (r, b2) \<Rightarrow>
               let two = (case r of Inr v \<Rightarrow> v | Inl e \<Rightarrow> JStr (message e)) in
               if two = JNum 2 then (True, b2)
               else
                 let errMsg = ''found dead browser coz 1+1 = '' @ js_string two @ '' (not 2)''
                 in (False, snd (dead (JStr errMsg) b2))))"

subsection \<open>Sequences of calls\<close>

datatype call = Init | Quit

fun perform :: "env \<Rightarrow> call \<Rightarrow> browser \<Rightarrow> unit result" where
  "perform E Init b = init E b"
| "perform E Quit b = quit E b"

text \<open>The calls are made one after the other, whether they succeed or fail.\<close>

fun run :: "env \<Rightarrow> call list \<Rightarrow> browser \<Rightarrow> browser" where
  "run E [] b = b"
| "run E (c # cs) b = run E cs (snd (perform E c b))"

text \<open>Repeated calls of \<open>dead\<close>, one for each reason of the list.\<close>

fun dead_calls :: "js_value list \<Rightarrow> browser \<Rightarrow> browser" where
  "dead_calls [] b = b"
| "dead_calls (r # rs) b = dead_calls rs (snd (dead r b))"

subsection \<open>Vocabulary of the statements\<close>

text \<open>No other control flow touches the state switch while a method is suspended.\<close>

definition no_overlap :: "env \<Rightarrow> bool" where
  "no_overlap E = (other_callers E = (\<lambda>tr s. s))"

text \<open>The events of one attempt of \<open>open\<close>, and of the reset after a failed one.\<close>

definition attempt_events :: "string \<Rightarrow> get_outcome \<Rightarrow> event list" where
  "attempt_events u out =
     [Set_timeout 60000, Driver_get u, if out = Unsettled then Timeout_fired else Clear_timeout]"

definition reset_events :: "event list" where
  "reset_events = [Driver_close, Driver_quit, Driver_init]"

text \<open>
  A collaborating environment: every driver and cookie call succeeds, the probe
  answers \<open>2\<close>, there is no child process, and nobody else touches the state.
\<close>

definition calm :: env where
  "calm = \<lparr>driver_init = (\<lambda>tr. None), driver_get = (\<lambda>tr u. Resolved),
            driver_close = (\<lambda>tr. None), driver_quit = (\<lambda>tr. None),
            driver_executeScript = (\<lambda>tr script. Inr (JNum 2)),
            cookie_hostname = (\<lambda>tr. Some ''wx.qq.com''), cookie_load = (\<lambda>tr. None),
            psTree = (\<lambda>tr. Inr []), process_kill = (\<lambda>tr pid. None),
            other_callers = (\<lambda>tr s. s)\<rparr>"

text \<open>A session that is open and stable, and one that is on its way to open.\<close>

definition stable_open :: browser where
  "stable_open = \<lparr>state = \<lparr>target = Open, current = Open, inProcess = False\<rparr>,
                    driver_set = True, head = ''chrome'', trace = []\<rparr>"

definition transitioning :: browser where
  "transitioning = \<lparr>state = \<lparr>target = Open, current = Open, inProcess = True\<rparr>,
                driver_set = True, head = ''chrome'', trace = []\<rparr>"

text \<open>The message \<open>readyLive\<close> reports for what the probe gave.\<close>

definition probe_message :: "error + js_value \<Rightarrow> string" where
  "probe_message r = ''found dead browser coz 1+1 = ''
      @ js_string (case r of Inr v \<Rightarrow> v | Inl e \<Rightarrow> JStr (message e)) @ '' (not 2)''"

text \<open>The probe answers \<open>3\<close>.\<close>

definition wrong_sum :: env where
  "wrong_sum = calm\<lparr>driver_executeScript := (\<lambda>tr script. Inr (JNum 3))\<rparr>"

text \<open>Every enumeration finds at least one process of the browser family.\<close>

definition always_found :: "env \<Rightarrow> string \<Rightarrow> bool" where
  "always_found E h =
     (\<forall>tr. \<exists>children rx. psTree E tr = Inr children \<and> regexText h = Some rx
            \<and> browser_pids rx children \<noteq> [])"

text \<open>
  The events of \<open>n + 1\<close> polls that start with attempt \<open>i\<close>: an enumeration, and
  between two of them the delay of the attempt that failed.
\<close>

definition poll_events :: "nat \<Rightarrow> nat \<Rightarrow> event list" where
  "poll_events i n = concat (map (\<lambda>j. [Ps_tree, Retry_delay (j * 100)]) [i..<i + n]) @ [Ps_tree]"

text \<open>
  A browser process; an environment in which it survives every signal, and one in
  which it is gone once it has been signalled.
\<close>

definition chrome_process :: process where
  "chrome_process = \<lparr>PID = 4242, COMMAND = Some ''/opt/google/chrome/chrome'', COMM = None\<rparr>"

definition orphans :: env where
  "orphans = calm\<lparr>psTree := (\<lambda>tr. Inr [chrome_process]),
                    process_kill := (\<lambda>tr pid. Some (Error ''kill ESRCH''))\<rparr>"

definition killable :: env where
  "killable = calm\<lparr>psTree := (\<lambda>tr. if Process_kill 4242 \<in> set tr then Inr [] else Inr [chrome_process])\<rparr>"

text \<open>Every \<open>close\<close>, \<open>quit\<close> and \<open>init\<close> of the driver succeeds.\<close>

definition resets_succeed :: "env \<Rightarrow> bool" where
  "resets_succeed E =
     (\<forall>tr. driver_close E tr = None \<and> driver_quit E tr = None \<and> driver_init E tr = None)"

text \<open>
  The outcomes of the failed attempts of a run of \<open>open\<close> that starts at the trace
  \<open>tr\<close> with \<open>ttl\<close> attempts left, when the resets succeed: the run goes on until
  \<open>driver.get\<close> resolves in time or the attempts are used up.
\<close>

fun failed_attempts :: "env \<Rightarrow> string \<Rightarrow> nat \<Rightarrow> event list \<Rightarrow> get_outcome list" where
  "failed_attempts E u 0 tr = []"
| "failed_attempts E u (Suc ttl) tr =
     (case driver_get E (tr @ [Set_timeout 60000]) u of
        Resolved \<Rightarrow> []
      | out \<Rightarrow> out # failed_attempts E u ttl (tr @ attempt_events u out @ reset_events))"

text \<open>
  Environments for \<open>open\<close>: the navigation is refused at once; it never settles; it
  hangs on the first two calls and resolves on the third; it is refused and the
  driver cannot be closed either.
\<close>

definition refusing :: env where
  "refusing = calm\<lparr>driver_get := (\<lambda>tr u. Rejected (Error ''net::ERR_CONNECTION_REFUSED''))\<rparr>"

definition hanging :: env where
  "hanging = calm\<lparr>driver_get := (\<lambda>tr u. Unsettled)\<rparr>"

definition hanging_twice :: env where
  "hanging_twice =
     calm\<lparr>driver_get := (\<lambda>tr u. if length (filter (\<lambda>e. e = Driver_get u) tr) < 2
                                then Unsettled else Resolved)\<rparr>"

definition stuck :: env where
  "stuck = refusing\<lparr>driver_close := (\<lambda>tr. Some (Error ''chrome not reachable''))\<rparr>"

text \<open>
  Environments for \<open>quit\<close> and \<open>init\<close>: the browser has crashed, so the driver
  refuses \<open>close\<close> and \<open>quit\<close>, and its process survives every signal; and a session
  in the middle of \<open>quit\<close>, when the cleanup starts.
\<close>

definition crashed :: env where
  "crashed = orphans\<lparr>driver_close := (\<lambda>tr. Some (Error ''ECONNREFUSED'')),
                      driver_quit := (\<lambda>tr. Some (Error ''ECONNREFUSED''))\<rparr>"

definition closing :: browser where
  "closing = \<lparr>state = \<lparr>target = Close, current = Close, inProcess = True\<rparr>,
                driver_set = True, head = ''chrome'', trace = [Driver_close, Driver_quit]\<rparr>"

text \<open>
  While \<open>init\<close> is suspended in its second navigation, after the cookies are loaded,
  another caller starts \<open>quit()\<close>, whose synchronous head runs; or another caller
  sets nothing but the target.
\<close>

definition quit_meanwhile :: env where
  "quit_meanwhile =
     calm\<lparr>other_callers := (\<lambda>tr s.
        if Cookie_load \<in> set tr \<and> last tr = Clear_timeout
        then (case quit_begin s of Inr s' \<Rightarrow> s' | Inl e \<Rightarrow> s) else s)\<rparr>"

definition target_flipped :: env where
  "target_flipped =
     calm\<lparr>other_callers := (\<lambda>tr s.
        if Cookie_load \<in> set tr \<and> last tr = Clear_timeout then setTarget Close s else s)\<rparr>"

text \<open>
  While \<open>quit\<close> is suspended in \<open>driver.close()\<close>, another caller starts \<open>init()\<close>,
  whose synchronous head runs: its guard passes, the current state being close.
\<close>

definition init_meanwhile :: env where
  "init_meanwhile =
     calm\<lparr>other_callers := (\<lambda>tr s.
        if last tr = Driver_close \<and> current s = Close
        then setCurrent Open False (setTarget Open s) else s)\<rparr>"

text \<open>
  The body of the \<open>try\<close> of \<open>init\<close>: it changes the state only when it succeeds,
  and then the target was open and the current state is committed.
\<close>

definition commits_open :: "(browser \<Rightarrow> unit result) \<Rightarrow> bool" where
  "commits_open m =
     (\<forall>b. case m b of
        (Inr v, b') \<Rightarrow> target (state b) = Open \<and> state b' = setCurrent Open True (state b)
      | (Inl e, b') \<Rightarrow> state b' = state b)"

section \<open>Properties\<close>

subsection \<open>What an effect leaves alone\<close>

lemma await_frame [simp]:
  "head (await E evs b) = head b" "driver_set (await E evs b) = driver_set b"
  "trace (await E evs b) = trace b @ evs"
  by (simp_all add: await_def Let_def)

lemma emit_frame [simp]:
  "head (emit evs b) = head b" "driver_set (emit evs b) = driver_set b"
  "trace (emit evs b) = trace b @ evs" "state (emit evs b) = state b"
  by (simp_all add: emit_def)

lemma await_no_overlap: "no_overlap E \<Longrightarrow> await E evs b = emit evs b"
  by (simp add: no_overlap_def await_def emit_def Let_def)

subsection \<open>dead and readyLive\<close>

lemma dead_in_dead_state:
  "target (state b) = Close \<or> current (state b) = Close \<Longrightarrow> dead r b = (True, b)"
  by (simp add: dead_def)

lemma dead_on_stable_open:
  assumes "target (state b) = Open" "current (state b) = Open" "\<not> inProcess (state b)"
    and "truthy r \<or> \<not> driver_set b"
  shows "dead r b = (True, emit [Emit_dead (if truthy r then r else JStr ''no driver or session'')] b)"
  using assms by (auto simp: dead_def isStable_def)

lemma dead_keeps_session:
  "state (snd (dead r b)) = state b \<and> driver_set (snd (dead r b)) = driver_set b
   \<and> head (snd (dead r b)) = head b"
  by (simp add: dead_def emit_def Let_def split: prod.splits)

lemma dead_calls_in_dead_state:
  "target (state b) = Close \<or> current (state b) = Close \<Longrightarrow> dead_calls rs b = b"
  by (induction rs) (simp_all add: dead_in_dead_state)

lemma dead_calls_on_stable_open:
  assumes "target (state b) = Open" "current (state b) = Open" "\<not> inProcess (state b)"
    and "\<forall>r \<in> set rs. truthy r"
  shows "trace (dead_calls rs b) = trace b @ map Emit_dead rs"
  using assms
proof (induction rs arbitrary: b)
  case Nil
  then show ?case by simp
next
  case (Cons r rs)
  have step: "dead r b = (True, emit [Emit_dead r] b)"
    using Cons.prems dead_on_stable_open [of b r] by simp
  have "trace (dead_calls rs (emit [Emit_dead r] b)) = trace (emit [Emit_dead r] b) @ map Emit_dead rs"
    using Cons.prems by (intro Cons.IH) (simp_all add: emit_def)
  then show ?case
    by (simp add: step emit_def)
qed

text \<open>
  C10. \<open>dead\<close> never changes the session state: whatever the reason and the starting
  state, the state switch (target, current, inProcess), the driver reference and the
  head are the same after the call. Its effects are the returned boolean and at most
  one \<open>dead\<close> event at the end of the trace.
\<close>

theorem dead_never_mutates_state:
  "state (snd (dead forceReason b)) = state b
   \<and> driver_set (snd (dead forceReason b)) = driver_set b
   \<and> head (snd (dead forceReason b)) = head b
   \<and> (trace (snd (dead forceReason b)) = trace b
      \<or> (\<exists>msg. trace (snd (dead forceReason b)) = trace b @ [Emit_dead msg]))"
  by (simp add: dead_def emit_def Let_def split: prod.splits)

theorem dead_never_mutates_state_witness:
  "state (snd (dead (JStr ''gone'') stable_open)) = state stable_open
   \<and> trace (snd (dead (JStr ''gone'') stable_open)) = [Emit_dead (JStr ''gone'')]"
  using dead_never_mutates_state [of "JStr ''gone''" stable_open]
  by (simp add: dead_def stable_open_def isStable_def emit_def)

text \<open>
  C5, as the claim states it, fails: two reports of the same death on a session that
  stays open and stable emit two \<open>dead\<close> events.
\<close>

theorem dead_twice_counterexample:
  "trace (dead_calls [JStr ''renderer gone'', JStr ''renderer gone''] stable_open)
     = [Emit_dead (JStr ''renderer gone''), Emit_dead (JStr ''renderer gone'')]"
  by (simp add: dead_def stable_open_def isStable_def emit_def)

text \<open>
  C5, amended. On a session in a dead state (target or current is close) \<open>dead\<close>
  returns true and emits nothing, so repeated calls in that state emit nothing. On a
  session that is open and stable, a call with a truthy reason, or without a driver
  reference, returns true and emits exactly one \<open>dead\<close> event; the state is not
  changed by it, so every further such call emits one more: the calls with the
  reasons \<open>rs\<close> add exactly the events \<open>map Emit_dead rs\<close>.
\<close>

theorem dead_emits_once_per_call:
  "(target (state b) = Close \<or> current (state b) = Close \<longrightarrow>
      dead r b = (True, b) \<and> dead_calls rs b = b)
   \<and> (target (state b) = Open \<and> current (state b) = Open \<and> \<not> inProcess (state b) \<longrightarrow>
      (truthy r \<or> \<not> driver_set b \<longrightarrow>
         dead r b = (True, emit [Emit_dead (if truthy r then r else JStr ''no driver or session'')] b))
      \<and> ((\<forall>r \<in> set rs. truthy r) \<longrightarrow> trace (dead_calls rs b) = trace b @ map Emit_dead rs))"
  using dead_in_dead_state [of b r] dead_calls_in_dead_state [of b rs]
    dead_on_stable_open [of b r] dead_calls_on_stable_open [of b rs]
  by blast

theorem dead_emits_once_per_call_witness:
  "dead (JStr ''gone'') (new_Browser ''chrome'') = (True, new_Browser ''chrome'')
   \<and> dead_calls [JStr ''a'', JStr ''b''] (new_Browser ''chrome'') = new_Browser ''chrome''
   \<and> dead (JStr ''gone'') stable_open = (True, emit [Emit_dead (JStr ''gone'')] stable_open)
   \<and> trace (dead_calls [JStr ''a'', JStr ''b'', JStr ''c''] stable_open)
       = [Emit_dead (JStr ''a''), Emit_dead (JStr ''b''), Emit_dead (JStr ''c'')]"
proof -
  have closed: "current (state (new_Browser ''chrome'')) = Close"
    by (simp add: new_Browser_def new_StateSwitch_def)
  have opened: "target (state stable_open) = Open \<and> current (state stable_open) = Open
      \<and> \<not> inProcess (state stable_open) \<and> trace stable_open = []"
    by (simp add: stable_open_def)
  show ?thesis
    using closed opened
      dead_emits_once_per_call [of "new_Browser ''chrome''" "JStr ''gone''" "[JStr ''a'', JStr ''b'']"]
      dead_emits_once_per_call [of stable_open "JStr ''gone''" "[JStr ''a'', JStr ''b'', JStr ''c'']"]
    by simp
qed

lemma readyLive_in_dead_state:
  "target (state b) = Close \<or> current (state b) = Close \<Longrightarrow> readyLive E b = (False, b)"
  by (simp add: readyLive_def dead_in_dead_state)

lemma dead_no_reason_live:
  "target (state b) = Open \<Longrightarrow> current (state b) = Open \<Longrightarrow> driver_set b \<Longrightarrow>
     dead JUndefined b = (False, b)"
  by (simp add: dead_def)

lemma readyLive_failed_probe:
  assumes live: "target (state b) = Open" "current (state b) = Open" "driver_set b"
    and seq: "no_overlap E"
    and probe: "driver_executeScript E (trace b) ''return 1+1'' \<noteq> Inr (JNum 2)"
  shows "fst (readyLive E b) = False"
    and "state (snd (readyLive E b)) = state b"
    and "fst (dead JUndefined (snd (readyLive E b))) = False"
    and "trace (snd (readyLive E b)) = trace b @ Driver_executeScript ''return 1+1'' #
           (if inProcess (state b) then []
            else [Emit_dead (JStr (probe_message (driver_executeScript E (trace b) ''return 1+1'')))])"
proof -
  let ?r = "driver_executeScript E (trace b) ''return 1+1''"
  let ?b1 = "emit [Driver_executeScript ''return 1+1''] b"
  let ?two = "case ?r of Inr v \<Rightarrow> v | Inl e \<Rightarrow> JStr (message e)"
  have two: "?two \<noteq> JNum 2"
    using probe by (cases ?r) auto
  have ex: "execute E ''return 1+1'' b = (?r, ?b1)"
    using live seq
    by (simp add: execute_def dead_no_reason_live drv_executeScript_def await_no_overlap)
  have rl: "readyLive E b = (False, snd (dead (JStr (probe_message ?r)) ?b1))"
    using live two by (simp add: readyLive_def dead_no_reason_live ex probe_message_def Let_def)
  have st: "state ?b1 = state b" "driver_set ?b1 = driver_set b"
      "trace ?b1 = trace b @ [Driver_executeScript ''return 1+1'']"
    by simp_all
  show "fst (readyLive E b) = False" by (simp add: rl)
  show s2: "state (snd (readyLive E b)) = state b"
    by (simp add: rl dead_keeps_session st)
  have d2: "driver_set (snd (readyLive E b)) = driver_set b"
    by (simp add: rl dead_keeps_session st)
  show "fst (dead JUndefined (snd (readyLive E b))) = False"
    using live s2 d2 by (simp add: dead_no_reason_live)
  have tr: "truthy (JStr (probe_message ?r))" by (simp add: probe_message_def)
  show "trace (snd (readyLive E b)) = trace b @ Driver_executeScript ''return 1+1'' #
           (if inProcess (state b) then []
            else [Emit_dead (JStr (probe_message ?r))])"
  proof (cases "inProcess (state b)")
    case True
    then have "dead (JStr (probe_message ?r)) ?b1 = (True, ?b1)"
      using live tr by (simp add: dead_def isStable_def del: truthy.simps)
    then show ?thesis using True by (simp add: rl)
  next
    case False
    then have "dead (JStr (probe_message ?r)) ?b1
        = (True, emit [Emit_dead (JStr (probe_message ?r))] ?b1)"
      using live tr dead_on_stable_open [of ?b1 "JStr (probe_message ?r)"]
      by (simp del: truthy.simps)
    then show ?thesis using False by (simp add: rl)
  qed
qed

text \<open>
  C6, as the claim states it, fails in its second half: on a stable open session
  whose probe answers \<open>3\<close>, \<open>readyLive\<close> returns false and emits the \<open>dead\<close> event,
  and the dead-state check that follows reports that the session is not dead.
\<close>

theorem readyLive_then_dead_counterexample:
  "fst (readyLive wrong_sum stable_open) = False
   \<and> trace (snd (readyLive wrong_sum stable_open))
       = [Driver_executeScript ''return 1+1'',
          Emit_dead (JStr ''found dead browser coz 1+1 = 3 (not 2)'')]
   \<and> fst (dead JUndefined (snd (readyLive wrong_sum stable_open))) = False"
  by (simp add: readyLive_def execute_def dead_def drv_executeScript_def await_def emit_def
      wrong_sum_def calm_def stable_open_def isStable_def show_int_def show_nat.simps
      digit_char_def Let_def)

text \<open>
  C6, amended. On a session that is dead by its state (target or current is close)
  \<open>readyLive\<close> returns false and the session, trace included, is as before: no probe
  is made. On a live session (target and current open, driver set) whose probe gives
  anything but the number \<open>2\<close>, and with no other caller in between, \<open>readyLive\<close>
  returns false; the trace grows by the probe and, when the session is stable, by one
  \<open>dead\<close> event that carries the observed value; the state is unchanged, so a
  dead-state check that follows still reports that the session is not dead.
\<close>

theorem readyLive_reports_without_marking:
  "(target (state b) = Close \<or> current (state b) = Close \<longrightarrow> readyLive E b = (False, b))
   \<and> (target (state b) = Open \<and> current (state b) = Open \<and> driver_set b \<and> no_overlap E
        \<and> driver_executeScript E (trace b) ''return 1+1'' \<noteq> Inr (JNum 2) \<longrightarrow>
        fst (readyLive E b) = False
        \<and> state (snd (readyLive E b)) = state b
        \<and> fst (dead JUndefined (snd (readyLive E b))) = False
        \<and> trace (snd (readyLive E b)) = trace b @ Driver_executeScript ''return 1+1'' #
             (if inProcess (state b) then []
              else [Emit_dead (JStr (probe_message (driver_executeScript E (trace b) ''return 1+1'')))]))"
  using readyLive_in_dead_state [of b E] readyLive_failed_probe [of b E]
  by blast

theorem readyLive_reports_without_marking_witness:
  "readyLive wrong_sum (new_Browser ''chrome'') = (False, new_Browser ''chrome'')
   \<and> fst (readyLive wrong_sum transitioning) = False
   \<and> state (snd (readyLive wrong_sum transitioning)) = state transitioning
   \<and> fst (dead JUndefined (snd (readyLive wrong_sum transitioning))) = False
   \<and> trace (snd (readyLive wrong_sum transitioning)) = [Driver_executeScript ''return 1+1'']"
proof -
  have closed: "current (state (new_Browser ''chrome'')) = Close"
    by (simp add: new_Browser_def new_StateSwitch_def)
  have live: "target (state transitioning) = Open \<and> current (state transitioning) = Open
      \<and> driver_set transitioning \<and> inProcess (state transitioning) \<and> trace transitioning = []"
    by (simp add: transitioning_def)
  have env: "no_overlap wrong_sum
      \<and> driver_executeScript wrong_sum (trace transitioning) ''return 1+1'' \<noteq> Inr (JNum 2)"
    by (simp add: no_overlap_def wrong_sum_def calm_def)
  show ?thesis
    using closed live env
      readyLive_reports_without_marking [of "new_Browser ''chrome''" wrong_sum]
      readyLive_reports_without_marking [of transitioning wrong_sum]
    by simp
qed

subsection \<open>clean\<close>

lemma getBrowserPidList_snd: "snd (getBrowserPidList E b) = await E [Ps_tree] b"
  by (simp add: getBrowserPidList_def split: sum.splits option.splits)

lemma poll_eq:
  "poll E attempt b =
     (case fst (getBrowserPidList E b) of
        Inl e \<Rightarrow> Inl e
      | Inr pidList \<Rightarrow> if pidList \<noteq> [] then Inl (Error (''browser number: '' @ show_nat (length pidList))) else Inr (),
      await E [Ps_tree] b)"
proof -
  obtain r b1 where g: "getBrowserPidList E b = (r, b1)" by (cases "getBrowserPidList E b")
  then have "b1 = await E [Ps_tree] b" using getBrowserPidList_snd [of E b] by simp
  then show ?thesis
    using g by (cases r) (simp_all add: poll_def andThen_def throw_def resolve_def)
qed

lemma retry_from_first:
  "fst (f i b) = Inr v \<Longrightarrow> retry_from E n i backoff f b = f i b"
  by (cases n; cases "f i b") auto

lemma kill_each_trace: "trace (kill_each E pids b) = trace b @ map Process_kill pids"
proof (induction pids arbitrary: b)
  case Nil
  then show ?case by simp
next
  case (Cons pid pids)
  have "trace (snd (kill_pid E pid b)) = trace b @ [Process_kill pid]"
    by (simp add: kill_pid_def try_catch_def complete_def resolve_def split: option.splits)
  then show ?case by (simp add: Cons.IH)
qed

lemma kill_each_frame: "head (kill_each E pids b) = head b \<and> state (kill_each E pids b) = state b
    \<and> driver_set (kill_each E pids b) = driver_set b"
proof (induction pids arbitrary: b)
  case Nil
  then show ?case by simp
next
  case (Cons pid pids)
  have "head (snd (kill_pid E pid b)) = head b \<and> state (snd (kill_pid E pid b)) = state b
     \<and> driver_set (snd (kill_pid E pid b)) = driver_set b"
    by (simp add: kill_pid_def try_catch_def complete_def resolve_def split: option.splits)
  then show ?case by (simp add: Cons.IH)
qed

lemma clean_no_kill: "clean E False b = retryPromise E 15 100 (poll E) b"
  by (simp add: clean_def andThen_def resolve_def)

lemma clean_kill:
  "fst (getBrowserPidList E b) = Inr pids \<Longrightarrow>
     clean E True b = retryPromise E 15 100 (poll E) (kill_each E pids (await E [Ps_tree] b))"
  using getBrowserPidList_snd [of E b]
  by (cases "getBrowserPidList E b") (simp add: clean_def andThen_def)

lemma clean_kill_enumerator_fails:
  "fst (getBrowserPidList E b) = Inl e \<Longrightarrow> clean E True b = (Inl e, await E [Ps_tree] b)"
  using getBrowserPidList_snd [of E b]
  by (cases "getBrowserPidList E b") (simp add: clean_def andThen_def)

lemma retryPromise_first:
  assumes "fst (getBrowserPidList E b) = Inr []"
  shows "retryPromise E 15 100 (poll E) b = (Inr (), await E [Ps_tree] b)"
proof -
  have p: "poll E i b = (Inr (), await E [Ps_tree] b)" for i
    using assms by (simp add: poll_eq)
  have "retry_from E n i 100 (poll E) b = poll E i b" for n i
    by (rule retry_from_first [where v = "()"]) (simp add: p)
  then show ?thesis by (simp only: retryPromise_def p)
qed

lemma poll_found:
  assumes "always_found E (head b)"
  shows "\<exists>k>0. poll E i b = (Inl (Error (''browser number: '' @ show_nat k)), await E [Ps_tree] b)"
proof -
  obtain children rx where c: "psTree E (trace b) = Inr children" "regexText (head b) = Some rx"
      "browser_pids rx children \<noteq> []"
    using assms unfolding always_found_def by blast
  then have "fst (getBrowserPidList E b) = Inr (browser_pids rx children)"
    by (simp add: getBrowserPidList_def)
  then show ?thesis using c(3) by (auto simp: poll_eq)
qed

lemma retry_from_exhausted:
  assumes "always_found E (head b)"
  shows "(\<exists>k>0. fst (retry_from E n i 100 (poll E) b) = Inl (Error (''browser number: '' @ show_nat k)))
     \<and> trace (snd (retry_from E n i 100 (poll E) b)) = trace b @ poll_events i n
     \<and> head (snd (retry_from E n i 100 (poll E) b)) = head b"
  using assms
proof (induction n arbitrary: i b)
  case 0
  then show ?case using poll_found [of E b i] by (auto simp: poll_events_def)
next
  case (Suc n)
  obtain k where k: "k > 0" "poll E i b = (Inl (Error (''browser number: '' @ show_nat k)), await E [Ps_tree] b)"
    using poll_found [OF Suc.prems, of i] by blast
  let ?b2 = "await E [Retry_delay (i * 100)] (await E [Ps_tree] b)"
  have step: "retry_from E (Suc n) i 100 (poll E) b = retry_from E n (Suc i) 100 (poll E) ?b2"
    by (simp add: k)
  have "always_found E (head ?b2)" using Suc.prems by simp
  from Suc.IH [OF this, of "Suc i"]
  have ih: "(\<exists>k>0. fst (retry_from E n (Suc i) 100 (poll E) ?b2) = Inl (Error (''browser number: '' @ show_nat k)))"
     "trace (snd (retry_from E n (Suc i) 100 (poll E) ?b2)) = trace ?b2 @ poll_events (Suc i) n"
     "head (snd (retry_from E n (Suc i) 100 (poll E) ?b2)) = head ?b2"
    by simp_all
  have ev: "poll_events i (Suc n) = [Ps_tree, Retry_delay (i * 100)] @ poll_events (Suc i) n"
  proof -
    have "[i..<i + Suc n] = i # [Suc i..<Suc i + n]"
      by (simp add: upt_conv_Cons)
    then show ?thesis by (simp add: poll_events_def)
  qed
  show ?case
    unfolding step using ih by (simp add: ev)
qed

lemma retryPromise_exhausted:
  assumes "always_found E (head b)"
  shows "(\<exists>k>0. fst (retryPromise E 15 100 (poll E) b) = Inl (Error (''browser number: '' @ show_nat k)))
     \<and> trace (snd (retryPromise E 15 100 (poll E) b)) = trace b @ poll_events 1 14"
  using retry_from_exhausted [OF assms, of 14 1] by (simp add: retryPromise_def)


lemma chrome_process_matches: "browser_pids Rx_chrome [chrome_process] = [4242]"
  by (simp add: browser_pids_def chrome_process_def field_string_def to_lower_def)

lemma chromedriver_excluded:
  "browser_pids Rx_chrome [\<lparr>PID = 7, COMMAND = Some ''ChromeDriver'', COMM = Some []\<rparr>] = []"
  by (simp add: browser_pids_def field_string_def to_lower_def)

text \<open>
  C9. When the enumeration finds no browser process, \<open>clean()\<close> succeeds after that
  one enumeration, with no delay in the trace. With \<open>kill\<close> set, every pid of the
  first enumeration is sent the signal before the polling begins, whatever
  \<open>process.kill\<close> answers for a pid: what it throws is caught (the log call in
  that \<open>catch\<close> is outside the model), and the polling then goes on as without
  \<open>kill\<close>. When every enumeration finds a browser process, \<open>clean\<close> fails after
  15 enumerations, with the delays 100, 200, ..., 1400 between them, and its error
  is \<open>browser number: k\<close> with \<open>k > 0\<close>.
\<close>

theorem clean_polls_until_no_browser:
  "(fst (getBrowserPidList E b) = Inr [] \<longrightarrow> clean E False b = (Inr (), await E [Ps_tree] b))
   \<and> (fst (getBrowserPidList E b) = Inr pids \<longrightarrow>
        clean E True b = retryPromise E 15 100 (poll E) (kill_each E pids (await E [Ps_tree] b))
        \<and> trace (kill_each E pids (await E [Ps_tree] b)) = trace b @ Ps_tree # map Process_kill pids
        \<and> (fst (getBrowserPidList E (kill_each E pids (await E [Ps_tree] b))) = Inr [] \<longrightarrow>
             clean E True b = (Inr (), await E [Ps_tree] (kill_each E pids (await E [Ps_tree] b)))))
   \<and> (always_found E (head b) \<longrightarrow>
        (\<exists>k>0. fst (clean E False b) = Inl (Error (''browser number: '' @ show_nat k)))
        \<and> trace (snd (clean E False b)) = trace b @ poll_events 1 14
        \<and> (\<exists>k>0. fst (clean E True b) = Inl (Error (''browser number: '' @ show_nat k)))
        \<and> (\<exists>pids. trace (snd (clean E True b)) = trace b @ Ps_tree # map Process_kill pids @ poll_events 1 14))"
proof (intro conjI impI)
  assume "fst (getBrowserPidList E b) = Inr []"
  then show "clean E False b = (Inr (), await E [Ps_tree] b)"
    by (simp only: clean_no_kill retryPromise_first)
next
  assume g: "fst (getBrowserPidList E b) = Inr pids"
  then show k: "clean E True b = retryPromise E 15 100 (poll E) (kill_each E pids (await E [Ps_tree] b))"
    by (rule clean_kill)
  show "trace (kill_each E pids (await E [Ps_tree] b)) = trace b @ Ps_tree # map Process_kill pids"
    by (simp add: kill_each_trace)
  assume "fst (getBrowserPidList E (kill_each E pids (await E [Ps_tree] b))) = Inr []"
  then show "clean E True b = (Inr (), await E [Ps_tree] (kill_each E pids (await E [Ps_tree] b)))"
    by (simp only: k retryPromise_first)
next
  assume a: "always_found E (head b)"
  show "\<exists>k>0. fst (clean E False b) = Inl (Error (''browser number: '' @ show_nat k))"
    using retryPromise_exhausted [OF a] by (simp only: clean_no_kill)
  show "trace (snd (clean E False b)) = trace b @ poll_events 1 14"
    using retryPromise_exhausted [OF a] by (simp only: clean_no_kill)
  obtain children rx where c: "psTree E (trace b) = Inr children" "regexText (head b) = Some rx"
    using a unfolding always_found_def by blast
  let ?pids = "browser_pids rx children"
  let ?b1 = "kill_each E ?pids (await E [Ps_tree] b)"
  have g: "fst (getBrowserPidList E b) = Inr ?pids"
    using c by (simp add: getBrowserPidList_def)
  have k: "clean E True b = retryPromise E 15 100 (poll E) ?b1"
    using g by (rule clean_kill)
  have a1: "always_found E (head ?b1)"
    using a by (simp add: kill_each_frame)
  show "\<exists>k>0. fst (clean E True b) = Inl (Error (''browser number: '' @ show_nat k))"
    using retryPromise_exhausted [OF a1] by (simp only: k)
  have "trace (snd (clean E True b)) = trace b @ Ps_tree # map Process_kill ?pids @ poll_events 1 14"
    using retryPromise_exhausted [OF a1] by (simp add: k kill_each_trace)
  then show "\<exists>pids. trace (snd (clean E True b)) = trace b @ Ps_tree # map Process_kill pids @ poll_events 1 14"
    by blast
qed

lemma orphans_found: "always_found orphans ''chrome''"
  by (simp add: always_found_def orphans_def calm_def regexText_def chrome_process_matches)

theorem clean_polls_until_no_browser_witness:
  "clean calm False (new_Browser ''chrome'') = (Inr (), await calm [Ps_tree] (new_Browser ''chrome''))
   \<and> trace (snd (clean killable True (new_Browser ''chrome''))) = [Ps_tree, Process_kill 4242, Ps_tree]
   \<and> fst (clean killable True (new_Browser ''chrome'')) = Inr ()
   \<and> (\<exists>k>0. fst (clean orphans False (new_Browser ''chrome'')) = Inl (Error (''browser number: '' @ show_nat k)))
   \<and> trace (snd (clean orphans False (new_Browser ''chrome''))) = poll_events 1 14
   \<and> (\<exists>k>0. fst (clean orphans True (new_Browser ''chrome'')) = Inl (Error (''browser number: '' @ show_nat k)))"
proof -
  let ?b = "new_Browser ''chrome''"
  have hd: "head ?b = ''chrome''" "trace ?b = []" by (simp_all add: new_Browser_def)
  have 1: "fst (getBrowserPidList calm ?b) = Inr []"
    by (simp add: getBrowserPidList_def calm_def new_Browser_def regexText_def browser_pids_def)
  have 2: "fst (getBrowserPidList killable ?b) = Inr [4242]"
    by (simp add: getBrowserPidList_def killable_def calm_def new_Browser_def regexText_def chrome_process_matches)
  let ?b1 = "kill_each killable [4242] (await killable [Ps_tree] ?b)"
  have tr1: "trace ?b1 = [Ps_tree, Process_kill 4242]"
    by (simp only: kill_each_trace) (simp add: hd)
  have hd1: "head ?b1 = ''chrome''"
    by (simp only: kill_each_frame) (simp add: hd)
  have "psTree killable (trace ?b1) = Inr []"
    by (simp only: tr1) (simp add: killable_def calm_def)
  then have 3: "fst (getBrowserPidList killable ?b1) = Inr []"
    by (simp only: getBrowserPidList_def hd1) (simp add: regexText_def browser_pids_def)
  have 4: "always_found orphans (head ?b)"
    by (simp add: hd orphans_found)
  have A: "clean calm False ?b = (Inr (), await calm [Ps_tree] ?b)"
    using 1 clean_polls_until_no_browser [of calm ?b "[]"] by blast
  have B: "clean killable True ?b = (Inr (), await killable [Ps_tree] ?b1)"
    using 2 3 clean_polls_until_no_browser [of killable ?b "[4242]"] by blast
  have B1: "trace (snd (clean killable True ?b)) = [Ps_tree, Process_kill 4242, Ps_tree]"
    by (simp only: B snd_conv await_frame tr1) simp
  have B2: "fst (clean killable True ?b) = Inr ()"
    by (simp only: B fst_conv)
  have C: "(\<exists>k>0. fst (clean orphans False ?b) = Inl (Error (''browser number: '' @ show_nat k)))
      \<and> trace (snd (clean orphans False ?b)) = trace ?b @ poll_events 1 14
      \<and> (\<exists>k>0. fst (clean orphans True ?b) = Inl (Error (''browser number: '' @ show_nat k)))"
    using 4 clean_polls_until_no_browser [of orphans ?b "[]"] by blast
  have C2: "trace (snd (clean orphans False ?b)) = poll_events 1 14"
    using C by (simp only: hd append_Nil)
  show ?thesis
    using A B1 B2 C C2 by blast
qed

subsection \<open>open\<close>

lemma get_or_timeout_trace:
  "trace (snd (get_or_timeout E u ttl b))
     = trace b @ attempt_events u (driver_get E (trace b @ [Set_timeout 60000]) u)"
  by (simp add: get_or_timeout_def attempt_events_def TIMEOUT_def split: get_outcome.splits)

lemma get_or_timeout_resolved:
  "driver_get E (trace b @ [Set_timeout 60000]) u = Resolved \<Longrightarrow>
     fst (get_or_timeout E u ttl b) = Inr ()"
  by (simp add: get_or_timeout_def TIMEOUT_def)

lemma get_or_timeout_failed:
  "driver_get E (trace b @ [Set_timeout 60000]) u \<noteq> Resolved \<Longrightarrow>
     \<exists>e. fst (get_or_timeout E u ttl b) = Inl e"
  by (simp add: get_or_timeout_def TIMEOUT_def split: get_outcome.splits)

lemma reset_driver_succeeds:
  assumes "resets_succeed E"
  shows "fst (reset_driver E b) = Inr ()"
    and "trace (snd (reset_driver E b)) = trace b @ reset_events"
  using assms
  by (simp_all add: resets_succeed_def reset_driver_def andThen_def drv_close_def drv_quit_def
      drv_init_def settle_def reset_events_def)

lemma final_close_quit:
  assumes "resets_succeed E"
  shows "fst (open_loop E u 0 b) = Inl (Error ''open fail because ttl expired'')"
    and "trace (snd (open_loop E u 0 b)) = trace b @ [Driver_close, Driver_quit]"
  using assms
  by (simp_all add: resets_succeed_def andThen_def drv_close_def drv_quit_def settle_def throw_def)

lemma open_loop_run:
  assumes "resets_succeed E"
  shows "length (failed_attempts E u ttl (trace b)) \<le> ttl
     \<and> Resolved \<notin> set (failed_attempts E u ttl (trace b))
     \<and> trace (snd (open_loop E u ttl b))
         = trace b @ concat (map (\<lambda>out. attempt_events u out @ reset_events)
                              (failed_attempts E u ttl (trace b)))
           @ (if length (failed_attempts E u ttl (trace b)) = ttl
              then [Driver_close, Driver_quit] else attempt_events u Resolved)
     \<and> fst (open_loop E u ttl b)
         = (if length (failed_attempts E u ttl (trace b)) = ttl
            then Inl (Error ''open fail because ttl expired'') else Inr ())"
proof (induction ttl arbitrary: b)
  case 0
  show ?case using final_close_quit [OF assms, of u b] by simp
next
  case (Suc ttl)
  let ?out = "driver_get E (trace b @ [Set_timeout 60000]) u"
  obtain r b1 where g: "get_or_timeout E u ttl b = (r, b1)"
    by (cases "get_or_timeout E u ttl b")
  have tr1: "trace b1 = trace b @ attempt_events u ?out"
    using get_or_timeout_trace [of E u ttl b] g by simp
  show ?case
  proof (cases "?out = Resolved")
    case True
    then have "r = Inr ()" using get_or_timeout_resolved [of E b u ttl] g by simp
    then show ?thesis using True g tr1 by simp
  next
    case False
    then obtain e where r: "r = Inl e" using get_or_timeout_failed [of E b u ttl] g by auto
    obtain b2 where rs: "reset_driver E b1 = (Inr (), b2)"
      using reset_driver_succeeds(1) [OF assms, of b1] by (cases "reset_driver E b1") auto
    have tr2: "trace b2 = trace b @ attempt_events u ?out @ reset_events"
      using reset_driver_succeeds(2) [OF assms, of b1] rs tr1 by simp
    have step: "open_loop E u (Suc ttl) b = open_loop E u ttl b2"
      by (simp add: g r rs)
    have fa: "failed_attempts E u (Suc ttl) (trace b) = ?out # failed_attempts E u ttl (trace b2)"
      using False by (simp add: tr2 split: get_outcome.splits)
    show ?thesis
      unfolding step fa using Suc.IH [of b2] False by (simp add: tr2)
  qed
qed


text \<open>
  C1, as the claim states it, fails. When the three attempts are used up the error
  of \<open>open\<close> is the same fixed message whether the last attempt was refused or timed
  out: it carries nothing of the last error. And when the driver cannot be closed
  after a failed attempt, that error ends \<open>open\<close> after one attempt, with no
  \<open>quit\<close> and no \<open>init\<close>.
\<close>

theorem open_exhausted_counterexample:
  "fst (get_or_timeout refusing ''https://wx.qq.com'' 0 (new_Browser ''chrome''))
     = Inl (Error ''net::ERR_CONNECTION_REFUSED'')
   \<and> fst (open refusing (Some ''https://wx.qq.com'') (new_Browser ''chrome''))
     = Inl (Error ''open fail because ttl expired'')
   \<and> fst (get_or_timeout hanging ''https://wx.qq.com'' 0 (new_Browser ''chrome''))
     = Inl (Error ''timeout after 60 secondsat ttl:0'')
   \<and> fst (open hanging (Some ''https://wx.qq.com'') (new_Browser ''chrome''))
     = Inl (Error ''open fail because ttl expired'')
   \<and> fst (open stuck (Some ''https://wx.qq.com'') (new_Browser ''chrome''))
     = Inl (Error ''chrome not reachable'')
   \<and> trace (snd (open stuck (Some ''https://wx.qq.com'') (new_Browser ''chrome'')))
     = [Set_timeout 60000, Driver_get ''https://wx.qq.com'', Clear_timeout, Driver_close]"
proof -
  let ?u = "''https://wx.qq.com''"
  let ?b = "new_Browser ''chrome''"
  have 1: "fst (get_or_timeout refusing ?u 0 ?b) = Inl (Error ''net::ERR_CONNECTION_REFUSED'')"
    by (simp add: get_or_timeout_def refusing_def calm_def)
  have 3: "fst (get_or_timeout hanging ?u 0 ?b) = Inl (Error ''timeout after 60 secondsat ttl:0'')"
    by (simp add: get_or_timeout_def hanging_def calm_def TIMEOUT_def show_nat.simps digit_char_def)
  have r: "resets_succeed refusing" by (simp add: resets_succeed_def refusing_def calm_def)
  have h: "resets_succeed hanging" by (simp add: resets_succeed_def hanging_def calm_def)
  have "length (failed_attempts refusing ?u 3 (trace ?b)) = 3"
    by (simp add: numeral_3_eq_3 refusing_def calm_def)
  then have 2: "fst (open_loop refusing ?u 3 ?b) = Inl (Error ''open fail because ttl expired'')"
    using open_loop_run [OF r, of ?u 3 ?b] by simp
  have "length (failed_attempts hanging ?u 3 (trace ?b)) = 3"
    by (simp add: numeral_3_eq_3 hanging_def calm_def)
  then have 4: "fst (open_loop hanging ?u 3 ?b) = Inl (Error ''open fail because ttl expired'')"
    using open_loop_run [OF h, of ?u 3 ?b] by simp
  have g: "get_or_timeout stuck ?u ttl ?b
      = (Inl (Error ''net::ERR_CONNECTION_REFUSED''),
         await stuck [Set_timeout 60000, Driver_get ?u, Clear_timeout] ?b)" for ttl
    by (simp add: get_or_timeout_def stuck_def refusing_def calm_def TIMEOUT_def)
  have c: "reset_driver stuck b = (Inl (Error ''chrome not reachable''), await stuck [Driver_close] b)" for b
    by (simp add: reset_driver_def andThen_def drv_close_def settle_def stuck_def)
  have 5: "open_loop stuck ?u 3 ?b = (Inl (Error ''chrome not reachable''),
      await stuck [Driver_close] (await stuck [Set_timeout 60000, Driver_get ?u, Clear_timeout] ?b))"
    by (simp add: numeral_3_eq_3 g c)
  have 6: "trace ?b = []" by (simp add: new_Browser_def)
  show ?thesis
    using 1 2 3 4 by (simp add: open_def 5 6)
qed

text \<open>
  C1, amended. For every call of \<open>open\<close> with a url, in an environment where the
  driver's \<open>close\<close>, \<open>quit\<close> and \<open>init\<close> succeed: at most 3 attempts are made; each
  sets a timer of 60000 ms and calls \<open>driver.get(url)\<close>, and ends with the timer
  cleared or fired; each failed attempt is followed by \<open>close\<close>, \<open>quit\<close>, \<open>init\<close>
  of the driver; when an attempt resolves in time \<open>open\<close> succeeds there; when all
  3 attempts have failed \<open>open\<close> calls \<open>close\<close> and \<open>quit\<close> once more and fails with
  the fixed error \<open>open fail because ttl expired\<close>.
\<close>

theorem open_attempts_and_resets:
  assumes "resets_succeed E" and "u \<noteq> []"
  shows "length (failed_attempts E u 3 (trace b)) \<le> 3
     \<and> Resolved \<notin> set (failed_attempts E u 3 (trace b))
     \<and> trace (snd (open E (Some u) b))
         = trace b @ concat (map (\<lambda>out. attempt_events u out @ reset_events)
                              (failed_attempts E u 3 (trace b)))
           @ (if length (failed_attempts E u 3 (trace b)) = 3
              then [Driver_close, Driver_quit] else attempt_events u Resolved)
     \<and> fst (open E (Some u) b)
         = (if length (failed_attempts E u 3 (trace b)) = 3
            then Inl (Error ''open fail because ttl expired'') else Inr ())"
proof -
  obtain c cs where u: "u = c # cs" using assms(2) by (cases u) auto
  have "open E (Some u) b = open_loop E u 3 b"
    by (simp add: open_def u)
  then show ?thesis
    using open_loop_run [OF assms(1), of u 3 b] by simp
qed

theorem open_attempts_and_resets_witness:
  "resets_succeed hanging
   \<and> failed_attempts hanging ''https://wx.qq.com'' 3 [] = [Unsettled, Unsettled, Unsettled]
   \<and> fst (open hanging (Some ''https://wx.qq.com'') (new_Browser ''chrome''))
       = Inl (Error ''open fail because ttl expired'')
   \<and> trace (snd (open hanging (Some ''https://wx.qq.com'') (new_Browser ''chrome'')))
       = [Set_timeout 60000, Driver_get ''https://wx.qq.com'', Timeout_fired,
          Driver_close, Driver_quit, Driver_init,
          Set_timeout 60000, Driver_get ''https://wx.qq.com'', Timeout_fired,
          Driver_close, Driver_quit, Driver_init,
          Set_timeout 60000, Driver_get ''https://wx.qq.com'', Timeout_fired,
          Driver_close, Driver_quit, Driver_init,
          Driver_close, Driver_quit]
   \<and> resets_succeed hanging_twice
   \<and> fst (open hanging_twice (Some ''https://wx.qq.com'') (new_Browser ''chrome'')) = Inr ()
   \<and> trace (snd (open hanging_twice (Some ''https://wx.qq.com'') (new_Browser ''chrome'')))
       = [Set_timeout 60000, Driver_get ''https://wx.qq.com'', Timeout_fired,
          Driver_close, Driver_quit, Driver_init,
          Set_timeout 60000, Driver_get ''https://wx.qq.com'', Timeout_fired,
          Driver_close, Driver_quit, Driver_init,
          Set_timeout 60000, Driver_get ''https://wx.qq.com'', Clear_timeout]"
proof -
  let ?u = "''https://wx.qq.com''"
  let ?b = "new_Browser ''chrome''"
  have tr: "trace ?b = []" by (simp add: new_Browser_def)
  have h: "resets_succeed hanging" by (simp add: resets_succeed_def hanging_def calm_def)
  have h2: "resets_succeed hanging_twice"
    by (simp add: resets_succeed_def hanging_twice_def calm_def)
  have fa: "failed_attempts hanging ?u 3 [] = [Unsettled, Unsettled, Unsettled]"
    by (simp add: numeral_3_eq_3 hanging_def calm_def)
  have fa2: "failed_attempts hanging_twice ?u 3 [] = [Unsettled, Unsettled]"
    by (simp add: numeral_3_eq_3 hanging_twice_def calm_def attempt_events_def reset_events_def)
  have A: "fst (open hanging (Some ?u) ?b) = Inl (Error ''open fail because ttl expired'')"
    and B: "trace (snd (open hanging (Some ?u) ?b))
       = concat (map (\<lambda>out. attempt_events ?u out @ reset_events) [Unsettled, Unsettled, Unsettled])
         @ [Driver_close, Driver_quit]"
    using open_attempts_and_resets [OF h, of ?u ?b] by (simp_all add: tr fa)
  have C: "fst (open hanging_twice (Some ?u) ?b) = Inr ()"
    and D: "trace (snd (open hanging_twice (Some ?u) ?b))
       = concat (map (\<lambda>out. attempt_events ?u out @ reset_events) [Unsettled, Unsettled])
         @ attempt_events ?u Resolved"
    using open_attempts_and_resets [OF h2, of ?u ?b] by (simp_all add: tr fa2)
  show ?thesis
    using h h2 fa A C
    by (simp add: B D attempt_events_def reset_events_def)
qed

subsection \<open>quit\<close>

text \<open>Methods that leave the state switch alone when no other caller runs.\<close>

lemma settle_state: "no_overlap E \<Longrightarrow> state (snd (settle E evs r b)) = state b"
  by (simp add: settle_def await_no_overlap split: option.splits)

lemma drv_state:
  assumes "no_overlap E"
  shows "state (snd (drv_init E b)) = state b" "state (snd (drv_close E b)) = state b"
    "state (snd (drv_quit E b)) = state b" "state (snd (loadCookie E b)) = state b"
  using assms by (simp_all add: drv_init_def drv_close_def drv_quit_def loadCookie_def settle_state)

lemma andThen_state:
  assumes "\<And>b. state (snd (m b)) = state b" "\<And>v b. state (snd (f v b)) = state b"
  shows "state (snd (andThen m f b)) = state b"
proof (cases "m b")
  case (Pair r b1)
  then have "state b1 = state b" using assms(1) [of b] by simp
  then show ?thesis using Pair assms(2) by (cases r) (simp_all add: andThen_def)
qed

lemma try_catch_state:
  assumes "\<And>b. state (snd (m b)) = state b" "\<And>e b. state (snd (h e b)) = state b"
  shows "state (snd (try_catch m h b)) = state b"
proof (cases "m b")
  case (Pair r b1)
  then have "state b1 = state b" using assms(1) [of b] by simp
  then show ?thesis using Pair assms(2) by (cases r) (simp_all add: try_catch_def)
qed

lemma resolve_state: "state (snd (resolve v b)) = state b"
  by (simp add: resolve_def)

lemma throw_state: "state (snd (throw e b)) = state b"
  by (simp add: throw_def)

lemma getBrowserPidList_state: "no_overlap E \<Longrightarrow> state (snd (getBrowserPidList E b)) = state b"
  by (simp add: getBrowserPidList_snd await_no_overlap)

lemma poll_state: "no_overlap E \<Longrightarrow> state (snd (poll E i b)) = state b"
  by (simp add: poll_eq await_no_overlap)

lemma retry_from_state:
  assumes "no_overlap E" "\<And>i b. state (snd (f i b)) = state b"
  shows "state (snd (retry_from E n i backoff f b)) = state b"
proof (induction n arbitrary: i b)
  case 0
  then show ?case by (simp add: assms(2))
next
  case (Suc n)
  show ?case
  proof (cases "f i b")
    case (Pair r b1)
    then have s1: "state b1 = state b" using assms(2) [of i b] by simp
    show ?thesis
    proof (cases r)
      case (Inl e)
      then show ?thesis
        using Pair s1 Suc.IH [of "Suc i" "await E [Retry_delay (i * backoff)] b1"]
        by (simp add: await_no_overlap [OF assms(1)])
    next
      case (Inr v)
      then show ?thesis using Pair s1 by simp
    qed
  qed
qed

lemma clean_state:
  assumes "no_overlap E"
  shows "state (snd (clean E kill b)) = state b"
proof -
  have r: "state (snd (retryPromise E 15 100 (poll E) b')) = state b'" for b'
    unfolding retryPromise_def
    by (rule retry_from_state [OF assms]) (rule poll_state [OF assms])
  show ?thesis
  proof (cases kill)
    case False
    then show ?thesis by (simp only: clean_no_kill r)
  next
    case True
    show ?thesis
    proof (cases "fst (getBrowserPidList E b)")
      case (Inl e)
      then show ?thesis
        using True by (simp add: clean_kill_enumerator_fails await_no_overlap [OF assms])
    next
      case (Inr pids)
      then show ?thesis
        using True by (simp add: clean_kill r kill_each_frame await_no_overlap [OF assms])
    qed
  qed
qed

text \<open>The body of the outer \<open>try\<close> of \<open>quit\<close>, with its \<open>catch\<close>.\<close>

lemma swallow_result: "fst (try_catch m (\<lambda>e. resolve ()) b) = Inr ()"
  by (cases "m b"; cases "fst (m b)") (auto simp: try_catch_def resolve_def)

lemma quit_shutdown_result: "fst (quit_shutdown E b) = Inr ()"
proof -
  let ?m = "andThen (try_catch (drv_close E) (\<lambda>e. resolve ()))
             (\<lambda>_. andThen (try_catch (drv_quit E) (\<lambda>e. resolve ()))
                (\<lambda>_. try_catch (clean E False) (\<lambda>e. clean E True)))"
  have "fst (try_catch ?m (\<lambda>e. resolve ()) b) = Inr ()" by (rule swallow_result)
  then show ?thesis
    by (cases "try_catch ?m (\<lambda>e. resolve ()) b") (simp add: quit_shutdown_def try_finally_def)
qed

lemma quit_shutdown_commits:
  "current (state (snd (quit_shutdown E b))) = Close \<and> \<not> inProcess (state (snd (quit_shutdown E b)))"
  by (simp add: quit_shutdown_def try_finally_def setCurrent_def split: prod.splits)

lemma quit_shutdown_target:
  assumes "no_overlap E"
  shows "target (state (snd (quit_shutdown E b))) = target (state b)"
proof -
  let ?m = "try_catch (andThen (try_catch (drv_close E) (\<lambda>e. resolve ()))
             (\<lambda>_. andThen (try_catch (drv_quit E) (\<lambda>e. resolve ()))
                (\<lambda>_. try_catch (clean E False) (\<lambda>e. clean E True)))) (\<lambda>e. resolve ())"
  have "state (snd (?m b)) = state b"
    by (intro try_catch_state andThen_state resolve_state drv_state [OF assms] clean_state [OF assms])
  then show ?thesis
    by (cases "?m b") (simp add: quit_shutdown_def try_finally_def setCurrent_def)
qed

lemma quit_past_guard:
  assumes "current (state b) = Open"
  shows "fst (quit E b) = Inr ()"
    and "current (state (snd (quit E b))) = Close"
    and "\<not> inProcess (state (snd (quit E b)))"
    and "no_overlap E \<Longrightarrow> target (state (snd (quit E b))) = Close"
  using assms
  by (simp_all add: quit_def quit_begin_def quit_shutdown_result quit_shutdown_commits
      quit_shutdown_target setCurrent_def setTarget_def)

lemma quit_guard:
  assumes "current (state b) = Close"
  shows "quit E b = (Inl (Error (if inProcess (state b)
          then ''quit() fail: on a browser with state.current():`close` and inprocess():`true` ?''
          else ''quit() fail: on a already quit-ed browser'')), b)"
  using assms by (simp add: quit_def quit_begin_def)

text \<open>
  C2. A call of \<open>quit\<close> that passes the guard (the current state is not close) ends
  with the current state close and not in process, whatever the driver, the
  cleanup and other callers do. When no other caller has run in between, the target
  is close as well, so the session is stable.
\<close>

theorem quit_ends_closed:
  assumes "current (state b) \<noteq> Close"
  shows "current (state (snd (quit E b))) = Close
     \<and> \<not> inProcess (state (snd (quit E b)))
     \<and> (no_overlap E \<longrightarrow>
          target (state (snd (quit E b))) = Close \<and> isStable (state (snd (quit E b))))"
proof -
  have o: "current (state b) = Open" using assms by (cases "current (state b)") auto
  show ?thesis
    using quit_past_guard [OF o, of E] by (simp add: isStable_def)
qed

lemma crashed_no_overlap: "no_overlap crashed"
  by (simp add: no_overlap_def crashed_def orphans_def calm_def)

theorem quit_ends_closed_witness:
  "current (state stable_open) \<noteq> Close
   \<and> driver_close crashed [] = Some (Error ''ECONNREFUSED'')
   \<and> current (state (snd (quit crashed stable_open))) = Close
   \<and> \<not> inProcess (state (snd (quit crashed stable_open)))
   \<and> target (state (snd (quit crashed stable_open))) = Close
   \<and> isStable (state (snd (quit crashed stable_open)))"
proof -
  have o: "current (state stable_open) \<noteq> Close" by (simp add: stable_open_def)
  have d: "driver_close crashed [] = Some (Error ''ECONNREFUSED'')"
    by (simp add: crashed_def)
  show ?thesis
    using o d crashed_no_overlap quit_ends_closed [OF o, of crashed] by blast
qed

text \<open>
  When another caller starts \<open>init()\<close> while \<open>quit\<close> is suspended in
  \<open>driver.close()\<close>, \<open>quit\<close> still commits the current state close, but the target
  is open by then: the session is not in process and not stable.
\<close>

lemma quit_overlapped_by_init:
  "quit init_meanwhile stable_open
   = (Inr (), \<lparr>state = \<lparr>target = Open, current = Close, inProcess = False\<rparr>,
               driver_set = True, head = ''chrome'',
               trace = [Driver_close, Driver_quit, Ps_tree]\<rparr>)
   \<and> \<not> isStable (state (snd (quit init_meanwhile stable_open)))"
proof -
  let ?E = init_meanwhile
  let ?b1 = "stable_open\<lparr>state := \<lparr>target = Close, current = Close, inProcess = True\<rparr>\<rparr>"
  let ?opening = "\<lparr>target = Open, current = Open, inProcess = True\<rparr>"
  let ?b2 = "\<lparr>state = ?opening, driver_set = True, head = ''chrome'', trace = [Driver_close]\<rparr>"
  let ?b3 = "\<lparr>state = ?opening, driver_set = True, head = ''chrome'',
      trace = [Driver_close, Driver_quit]\<rparr>"
  let ?b4 = "\<lparr>state = ?opening, driver_set = True, head = ''chrome'',
      trace = [Driver_close, Driver_quit, Ps_tree]\<rparr>"
  have 1: "drv_close ?E ?b1 = (Inr (), ?b2)"
    by (simp add: drv_close_def settle_def await_def stable_open_def init_meanwhile_def calm_def
        setCurrent_def setTarget_def)
  have 2: "drv_quit ?E ?b2 = (Inr (), ?b3)"
    by (simp add: drv_quit_def settle_def await_def init_meanwhile_def calm_def)
  have "fst (getBrowserPidList ?E ?b3) = Inr []"
    by (simp add: getBrowserPidList_def init_meanwhile_def calm_def regexText_def browser_pids_def)
  then have "clean ?E False ?b3 = (Inr (), await ?E [Ps_tree] ?b3)"
    by (simp only: clean_no_kill retryPromise_first)
  moreover have "await ?E [Ps_tree] ?b3 = ?b4"
    by (simp add: await_def init_meanwhile_def)
  ultimately have 3: "clean ?E False ?b3 = (Inr (), ?b4)" by simp
  have q: "quit ?E stable_open = quit_shutdown ?E ?b1"
    by (simp add: quit_def quit_begin_def stable_open_def setCurrent_def setTarget_def)
  have "quit_shutdown ?E ?b1
      = (Inr (), \<lparr>state = \<lparr>target = Open, current = Close, inProcess = False\<rparr>,
               driver_set = True, head = ''chrome'',
               trace = [Driver_close, Driver_quit, Ps_tree]\<rparr>)"
    by (simp add: quit_shutdown_def try_finally_def try_catch_def andThen_def resolve_def 1 2 3
        setCurrent_def)
  then show ?thesis by (simp add: q isStable_def)
qed

lemma crashed_poll:
  assumes "head b = ''chrome''"
  shows "poll crashed i b = (Inl (Error ''browser number: 1''), await crashed [Ps_tree] b)"
proof -
  have "fst (getBrowserPidList crashed b) = Inr [4242]"
    using assms
    by (simp add: getBrowserPidList_def crashed_def orphans_def calm_def regexText_def
        chrome_process_matches)
  then show ?thesis
    by (simp add: poll_eq show_nat.simps digit_char_def)
qed

lemma crashed_retry:
  assumes "head b = ''chrome''"
  shows "fst (retry_from crashed n i 100 (poll crashed) b) = Inl (Error ''browser number: 1'')"
  using assms
proof (induction n arbitrary: i b)
  case 0
  then show ?case by (simp add: crashed_poll)
next
  case (Suc n)
  have "head (await crashed [Retry_delay (i * 100)] (await crashed [Ps_tree] b)) = ''chrome''"
    using Suc.prems by simp
  from Suc.IH [OF this] show ?case
    by (simp add: crashed_poll [OF Suc.prems])
qed

lemma crashed_clean:
  assumes "head b = ''chrome''"
  shows "fst (clean crashed kill b) = Inl (Error ''browser number: 1'')"
proof (cases kill)
  case False
  then show ?thesis
    by (simp only: clean_no_kill retryPromise_def crashed_retry [OF assms])
next
  case True
  have g: "fst (getBrowserPidList crashed b) = Inr [4242]"
    using assms
    by (simp add: getBrowserPidList_def crashed_def orphans_def calm_def regexText_def
        chrome_process_matches)
  have "head (kill_each crashed [4242] (await crashed [Ps_tree] b)) = ''chrome''"
    using assms by (simp only: kill_each_frame await_frame)
  then show ?thesis
    using True by (simp only: clean_kill [OF g] retryPromise_def crashed_retry)
qed

lemma clean_head: "head (snd (clean E kill b)) = head b"
proof -
  have p: "head (snd (poll E i b')) = head b'" for i b'
    by (simp add: poll_eq)
  have r: "head (snd (retry_from E n i bo (poll E) b')) = head b'" for n i bo b'
  proof (induction n arbitrary: i b')
    case 0
    then show ?case by (simp add: p)
  next
    case (Suc n)
    show ?case
    proof (cases "poll E i b'")
      case (Pair r b1)
      then have "head b1 = head b'" using p [of i b'] by simp
      then show ?thesis using Pair Suc.IH by (cases r) simp_all
    qed
  qed
  show ?thesis
  proof (cases kill)
    case False
    then show ?thesis by (simp only: clean_no_kill retryPromise_def r)
  next
    case True
    show ?thesis
    proof (cases "fst (getBrowserPidList E b)")
      case (Inl e)
      then show ?thesis using True by (simp add: clean_kill_enumerator_fails)
    next
      case (Inr pids)
      then show ?thesis
        using True by (simp only: clean_kill retryPromise_def r kill_each_frame await_frame)
    qed
  qed
qed

text \<open>The steps of \<open>quit\<close> past its guard, one after the other.\<close>

lemma quit_head_state:
  "setCurrent Close False (setTarget Close s) = \<lparr>target = Close, current = Close, inProcess = True\<rparr>"
  by (cases s) (simp add: setCurrent_def setTarget_def)

lemma quit_steps:
  assumes "current (state b) = Open"
  shows "quit E b =
     (let b1 = b\<lparr>state := \<lparr>target = Close, current = Close, inProcess = True\<rparr>\<rparr>;
          b2 = snd (drv_close E b1);
          b3 = snd (drv_quit E b2);
          b4 = snd (clean E False b3);
          b5 = (case fst (clean E False b3) of Inl e \<Rightarrow> snd (clean E True b4) | Inr u \<Rightarrow> b4)
      in (Inr (), b5\<lparr>state := (state b5)\<lparr>current := Close, inProcess := False\<rparr>\<rparr>))"
proof -
  let ?b1 = "b\<lparr>state := \<lparr>target = Close, current = Close, inProcess = True\<rparr>\<rparr>"
  have q: "quit E b = quit_shutdown E ?b1"
    using assms by (simp add: quit_def quit_begin_def quit_head_state)
  obtain r2 b2 where c: "drv_close E ?b1 = (r2, b2)" by (cases "drv_close E ?b1")
  obtain r3 b3 where d: "drv_quit E b2 = (r3, b3)" by (cases "drv_quit E b2")
  obtain r4 b4 where e: "clean E False b3 = (r4, b4)" by (cases "clean E False b3")
  obtain r5 b5 where f: "clean E True b4 = (r5, b5)" by (cases "clean E True b4")
  show ?thesis
    unfolding q
    by (cases r2; cases r3; cases r4; cases r5)
       (simp_all add: quit_shutdown_def try_finally_def try_catch_def andThen_def resolve_def
         setCurrent_def c d e f Let_def)
qed

lemma drv_close_trace: "trace (snd (drv_close E b)) = trace b @ [Driver_close]"
  by (simp add: drv_close_def settle_def split: option.splits)

lemma drv_quit_trace: "trace (snd (drv_quit E b)) = trace b @ [Driver_quit]"
  by (simp add: drv_quit_def settle_def split: option.splits)

lemma crashed_found: "always_found crashed ''chrome''"
  by (simp add: always_found_def crashed_def orphans_def calm_def regexText_def
      chrome_process_matches)

lemma crashed_clean_trace:
  assumes "head b = ''chrome''"
  shows "trace (snd (clean crashed False b)) = trace b @ poll_events 1 14"
    and "trace (snd (clean crashed True b))
      = trace b @ Ps_tree # Process_kill 4242 # poll_events 1 14"
proof -
  have a: "always_found crashed (head b)" using assms by (simp only: crashed_found)
  show "trace (snd (clean crashed False b)) = trace b @ poll_events 1 14"
    using retryPromise_exhausted [OF a] by (simp only: clean_no_kill)
  have g: "fst (getBrowserPidList crashed b) = Inr [4242]"
    using assms
    by (simp add: getBrowserPidList_def crashed_def orphans_def calm_def regexText_def
        chrome_process_matches)
  let ?b1 = "kill_each crashed [4242] (await crashed [Ps_tree] b)"
  have a1: "always_found crashed (head ?b1)"
    using assms by (simp only: kill_each_frame await_frame crashed_found)
  have t1: "trace ?b1 = trace b @ [Ps_tree, Process_kill 4242]"
    by (simp only: kill_each_trace await_frame) simp
  show "trace (snd (clean crashed True b))
      = trace b @ Ps_tree # Process_kill 4242 # poll_events 1 14"
    using retryPromise_exhausted [OF a1] by (simp only: clean_kill [OF g] t1) simp
qed

text \<open>
  C3, as the claim states it, fails: with the browser crashed and its process
  surviving, \<open>clean()\<close> fails, \<open>clean(true)\<close> fails as well, each with the error
  \<open>browser number: 1\<close>, and \<open>quit\<close> nevertheless returns normally.
\<close>

theorem quit_swallows_orphans_counterexample:
  "fst (clean crashed False closing) = Inl (Error ''browser number: 1'')
   \<and> fst (clean crashed True (snd (clean crashed False closing)))
       = Inl (Error ''browser number: 1'')
   \<and> fst (quit crashed stable_open) = Inr ()"
proof -
  have h: "head closing = ''chrome''" by (simp add: closing_def)
  then have h2: "head (snd (clean crashed False closing)) = ''chrome''"
    by (simp only: clean_head)
  have "current (state stable_open) = Open" by (simp add: stable_open_def)
  then have "fst (quit crashed stable_open) = Inr ()" by (rule quit_past_guard)
  then show ?thesis
    using crashed_clean [OF h, of False] crashed_clean [OF h2, of True] by blast
qed

text \<open>
  C3, amended. Past its guard \<open>quit\<close> calls \<open>driver.close()\<close> and then
  \<open>driver.quit()\<close>, each whatever the other answered, and propagates the error of
  neither; it then calls \<open>clean()\<close> and, when that fails, \<open>clean(true)\<close> once; it
  does not propagate a failure of this cleanup either, the outer \<open>catch\<close> taking the
  error that is left when \<open>clean(true)\<close> has failed too; it commits the current state
  and returns normally. The one error \<open>quit\<close> surfaces is that of its guard, when the
  current state is already close, and then nothing is called and nothing changed.
\<close>

theorem quit_surfaces_only_guard_error:
  "(if current (state b) = Close
    then quit E b =
      (Inl (Error (if inProcess (state b)
         then ''quit() fail: on a browser with state.current():`close` and inprocess():`true` ?''
         else ''quit() fail: on a already quit-ed browser'')), b)
    else
      (let b1 = b\<lparr>state := \<lparr>target = Close, current = Close, inProcess = True\<rparr>\<rparr>;
           b2 = snd (drv_close E b1);
           b3 = snd (drv_quit E b2);
           b4 = snd (clean E False b3);
           b5 = (case fst (clean E False b3) of Inl e \<Rightarrow> snd (clean E True b4) | Inr u \<Rightarrow> b4)
       in trace b3 = trace b @ [Driver_close, Driver_quit]
          \<and> quit E b = (Inr (), b5\<lparr>state := (state b5)\<lparr>current := Close, inProcess := False\<rparr>\<rparr>)))"
proof (cases "current (state b)")
  case Open
  then show ?thesis
    using quit_steps [OF Open, of E]
    by (simp add: Let_def drv_close_trace drv_quit_trace)
next
  case Close
  then show ?thesis using quit_guard [of b E] by simp
qed

theorem quit_surfaces_only_guard_error_witness:
  "quit crashed (new_Browser ''chrome'')
     = (Inl (Error ''quit() fail: on a already quit-ed browser''), new_Browser ''chrome'')
   \<and> driver_close crashed [] = Some (Error ''ECONNREFUSED'')
   \<and> fst (quit crashed stable_open) = Inr ()
   \<and> trace (snd (quit crashed stable_open))
       = [Driver_close, Driver_quit] @ poll_events 1 14
         @ Ps_tree # Process_kill 4242 # poll_events 1 14
   \<and> quit calm stable_open
       = (Inr (), \<lparr>state = \<lparr>target = Close, current = Close, inProcess = False\<rparr>,
                   driver_set = True, head = ''chrome'',
                   trace = [Driver_close, Driver_quit, Ps_tree]\<rparr>)"
proof -
  let ?b1 = "stable_open\<lparr>state := \<lparr>target = Close, current = Close, inProcess = True\<rparr>\<rparr>"
  have g: "quit crashed (new_Browser ''chrome'')
     = (Inl (Error ''quit() fail: on a already quit-ed browser''), new_Browser ''chrome'')"
    using quit_surfaces_only_guard_error [of "new_Browser ''chrome''" crashed]
    by (simp add: new_Browser_def new_StateSwitch_def)
  have d: "driver_close crashed [] = Some (Error ''ECONNREFUSED'')"
    by (simp add: crashed_def)
  have o: "current (state stable_open) \<noteq> Close" "trace stable_open = []"
    by (simp_all add: stable_open_def)
  let ?c3 = "snd (drv_quit crashed (snd (drv_close crashed ?b1)))"
  let ?c4 = "snd (clean crashed False ?c3)"
  have h3: "head ?c3 = ''chrome''"
    by (simp add: drv_quit_def drv_close_def settle_def stable_open_def split: option.splits)
  have t3: "trace ?c3 = [Driver_close, Driver_quit]"
    by (simp add: drv_close_trace drv_quit_trace stable_open_def)
  have f4: "fst (clean crashed False ?c3) = Inl (Error ''browser number: 1'')"
    by (rule crashed_clean [OF h3])
  have t4: "trace ?c4 = [Driver_close, Driver_quit] @ poll_events 1 14"
    by (simp only: crashed_clean_trace(1) [OF h3] t3)
  have h4: "head ?c4 = ''chrome''" by (simp only: clean_head h3)
  have t5: "trace (snd (clean crashed True ?c4))
      = [Driver_close, Driver_quit] @ poll_events 1 14
        @ Ps_tree # Process_kill 4242 # poll_events 1 14"
    by (simp only: crashed_clean_trace(2) [OF h4] t4) simp
  have c: "fst (quit crashed stable_open) = Inr ()
      \<and> trace (snd (quit crashed stable_open))
        = [Driver_close, Driver_quit] @ poll_events 1 14
          @ Ps_tree # Process_kill 4242 # poll_events 1 14"
    using quit_surfaces_only_guard_error [of stable_open crashed] o(1)
    by (simp add: Let_def f4 t5)
  let ?k2 = "\<lparr>state = \<lparr>target = Close, current = Close, inProcess = True\<rparr>,
      driver_set = True, head = ''chrome'', trace = [Driver_close]\<rparr>"
  let ?k3 = "\<lparr>state = \<lparr>target = Close, current = Close, inProcess = True\<rparr>,
      driver_set = True, head = ''chrome'', trace = [Driver_close, Driver_quit]\<rparr>"
  let ?k4 = "\<lparr>state = \<lparr>target = Close, current = Close, inProcess = True\<rparr>,
      driver_set = True, head = ''chrome'', trace = [Driver_close, Driver_quit, Ps_tree]\<rparr>"
  have k2: "drv_close calm ?b1 = (Inr (), ?k2)"
    by (simp add: drv_close_def settle_def await_def stable_open_def calm_def)
  have k3: "drv_quit calm ?k2 = (Inr (), ?k3)"
    by (simp add: drv_quit_def settle_def await_def calm_def)
  have "fst (getBrowserPidList calm ?k3) = Inr []"
    by (simp add: getBrowserPidList_def calm_def regexText_def browser_pids_def)
  then have "clean calm False ?k3 = (Inr (), await calm [Ps_tree] ?k3)"
    by (simp only: clean_no_kill retryPromise_first)
  moreover have "await calm [Ps_tree] ?k3 = ?k4"
    by (simp add: await_def calm_def)
  ultimately have k4: "clean calm False ?k3 = (Inr (), ?k4)" by simp
  have k: "quit calm stable_open
       = (Inr (), \<lparr>state = \<lparr>target = Close, current = Close, inProcess = False\<rparr>,
                   driver_set = True, head = ''chrome'',
                   trace = [Driver_close, Driver_quit, Ps_tree]\<rparr>)"
    using quit_surfaces_only_guard_error [of stable_open calm] o(1)
    by (simp add: Let_def k2 k3 k4)
  show ?thesis
    using g d c k by blast
qed

subsection \<open>init\<close>

lemma get_or_timeout_state: "no_overlap E \<Longrightarrow> state (snd (get_or_timeout E u ttl b)) = state b"
  by (simp add: get_or_timeout_def await_no_overlap split: get_outcome.splits)

lemma reset_driver_state: "no_overlap E \<Longrightarrow> state (snd (reset_driver E b)) = state b"
  unfolding reset_driver_def
  by (intro andThen_state drv_state)

lemma open_loop_state:
  assumes "no_overlap E"
  shows "state (snd (open_loop E u ttl b)) = state b"
proof (induction ttl arbitrary: b)
  case 0
  have "state (snd (andThen (drv_close E) (\<lambda>_. andThen (drv_quit E)
       (\<lambda>_. throw (Error ''open fail because ttl expired''))) b)) = state b"
    by (intro andThen_state drv_state [OF assms] throw_state)
  then show ?case by simp
next
  case (Suc ttl)
  show ?case
  proof (cases "get_or_timeout E u ttl b")
    case (Pair r b1)
    then have s1: "state b1 = state b" using get_or_timeout_state [OF assms, of u ttl b] by simp
    show ?thesis
    proof (cases r)
      case (Inr v)
      then show ?thesis using Pair s1 by simp
    next
      case (Inl e)
      show ?thesis
      proof (cases "reset_driver E b1")
        case rs: (Pair r2 b2)
        then have s2: "state b2 = state b" using reset_driver_state [OF assms, of b1] s1 by simp
        show ?thesis using Pair Inl rs s2 Suc.IH [of b2] by (cases r2) simp_all
      qed
    qed
  qed
qed

lemma open_state:
  assumes "no_overlap E"
  shows "state (snd (open E url b)) = state b"
  by (simp add: open_def open_loop_state [OF assms] split: option.splits list.splits)

lemma commits_openD:
  assumes "commits_open m"
  shows "case m b of
        (Inr v, b') \<Rightarrow> target (state b) = Open \<and> state b' = setCurrent Open True (state b)
      | (Inl e, b') \<Rightarrow> state b' = state b"
  using assms unfolding commits_open_def by (erule_tac x = b in allE)

lemma commits_open_andThen:
  assumes "\<And>b. state (snd (m b)) = state b" "\<And>v. commits_open (f v)"
  shows "commits_open (andThen m f)"
  unfolding commits_open_def
proof
  fix b
  obtain r b1 where m: "m b = (r, b1)" by (cases "m b")
  then have s1: "state b1 = state b" using assms(1) [of b] by simp
  show "case andThen m f b of
        (Inr v, b') \<Rightarrow> target (state b) = Open \<and> state b' = setCurrent Open True (state b)
      | (Inl e, b') \<Rightarrow> state b' = state b"
  proof (cases r)
    case (Inl e)
    then show ?thesis using m s1 by (simp add: andThen_def)
  next
    case (Inr v)
    have "case f v b1 of
        (Inr v, b') \<Rightarrow> target (state b1) = Open \<and> state b' = setCurrent Open True (state b1)
      | (Inl e, b') \<Rightarrow> state b' = state b1"
      using assms(2) [of v] by (rule commits_openD)
    then show ?thesis
      using m Inr s1 by (auto simp: andThen_def split: prod.splits sum.splits)
  qed
qed

lemma init_body_commits:
  assumes "no_overlap E"
  shows "commits_open (init_body E jumpUrl)"
  unfolding init_body_def
proof (intro commits_open_andThen try_catch_state resolve_state drv_state [OF assms]
    open_state [OF assms])
  show "commits_open (\<lambda>b. if target (state b) \<noteq> Open
      then (Inl (Error ''init() open() done, but state.target() is set to close after that. has to quit().''), b)
      else (Inr (), b\<lparr>state := setCurrent Open True (state b)\<rparr>))"
    by (simp add: commits_open_def)
qed

text \<open>
  \<open>init\<close> on a closed session, with no other caller in between: it succeeds and the
  session is open and stable, or it fails with the error of its body, after \<open>quit\<close>
  has run, and the session is closed and stable.
\<close>

lemma init_without_overlap:
  assumes seq: "no_overlap E" and closed: "current (state b) = Close"
  shows "(fst (init E b) = Inr ()
          \<and> state (snd (init E b)) = \<lparr>target = Open, current = Open, inProcess = False\<rparr>)
       \<or> (\<exists>err. fst (init E b) = Inl err
          \<and> state (snd (init E b)) = \<lparr>target = Close, current = Close, inProcess = False\<rparr>)"
proof -
  let ?b1 = "b\<lparr>state := setCurrent Open False (setTarget Open (state b))\<rparr>"
  let ?j = "''https://'' @ (case cookie_hostname E (trace ?b1) of None \<Rightarrow> ''null'' | Some h \<Rightarrow> h)
      @ ''/zh_CN/htmledition/v2/images/webwxgeticon.jpg''"
  have i: "init E b = try_catch (init_body E ?j) (\<lambda>err. andThen (quit E) (\<lambda>_. throw err)) ?b1"
    using closed by (simp add: init_def Let_def)
  obtain r b2 where body: "init_body E ?j ?b1 = (r, b2)" by (cases "init_body E ?j ?b1")
  have c: "case init_body E ?j ?b1 of
        (Inr v, b') \<Rightarrow> target (state ?b1) = Open \<and> state b' = setCurrent Open True (state ?b1)
      | (Inl e, b') \<Rightarrow> state b' = state ?b1"
    using init_body_commits [OF seq, of ?j] by (rule commits_openD)
  show ?thesis
  proof (cases r)
    case (Inr v)
    then have "state b2 = \<lparr>target = Open, current = Open, inProcess = False\<rparr>"
      using c body by (simp add: setCurrent_def setTarget_def)
    then show ?thesis using Inr body by (simp add: i try_catch_def)
  next
    case (Inl err)
    then have s2: "state b2 = setCurrent Open False (setTarget Open (state b))"
      using c body by simp
    then have o: "current (state b2) = Open" by (simp add: setCurrent_def)
    obtain b3 where q: "quit E b2 = (Inr (), b3)"
      using quit_past_guard(1) [OF o, of E] by (cases "quit E b2") auto
    have "current (state b3) = Close" "\<not> inProcess (state b3)" "target (state b3) = Close"
      using quit_past_guard(2,3) [OF o, of E] quit_past_guard(4) [OF o seq] q by simp_all
    then have "state b3 = \<lparr>target = Close, current = Close, inProcess = False\<rparr>"
      by (cases "state b3") simp
    then show ?thesis
      using Inl body q by (simp add: i try_catch_def andThen_def throw_def)
  qed
qed

lemma perform_keeps_stable:
  assumes "no_overlap E" "isStable (state b)"
  shows "isStable (state (snd (perform E c b)))"
proof (cases c)
  case Init
  show ?thesis
  proof (cases "current (state b)")
    case Open
    then show ?thesis using Init assms(2) by (simp add: init_def)
  next
    case Close
    then show ?thesis
      using Init init_without_overlap [OF assms(1) Close] by (auto simp: isStable_def)
  qed
next
  case Quit
  show ?thesis
  proof (cases "current (state b)")
    case Open
    then show ?thesis
      using Quit quit_past_guard(2,3) [OF Open, of E] quit_past_guard(4) [OF Open assms(1)]
      by (simp add: isStable_def)
  next
    case Close
    then show ?thesis using Quit assms(2) by (simp add: quit_guard)
  qed
qed

lemma run_keeps_stable:
  assumes "no_overlap E" "isStable (state b)"
  shows "isStable (state (run E cs b))"
  using assms(2)
proof (induction cs arbitrary: b)
  case Nil
  then show ?case by simp
next
  case (Cons c cs)
  then show ?case using perform_keeps_stable [OF assms(1)] by simp
qed

lemma calm_no_overlap: "no_overlap calm"
  by (simp add: no_overlap_def calm_def)

text \<open>
  C4. After every sequence of \<open>init\<close> and \<open>quit\<close> calls on a fresh session,
  whatever the collaborators answer and whatever other callers do to the state
  switch while a call is suspended, the state is never stable with a target that
  differs from the current state. When the calls do not overlap, the session is in
  fact stable after every call: not in process, and target and current agree.
\<close>

theorem never_stable_with_target_differing:
  "\<not> (isStable (state (run E calls (new_Browser h)))
       \<and> target (state (run E calls (new_Browser h))) \<noteq> current (state (run E calls (new_Browser h))))
   \<and> (no_overlap E \<longrightarrow>
        \<not> inProcess (state (run E calls (new_Browser h)))
        \<and> target (state (run E calls (new_Browser h))) = current (state (run E calls (new_Browser h))))"
proof -
  have "isStable (state (new_Browser h))"
    by (simp add: isStable_def new_Browser_def new_StateSwitch_def)
  then have "no_overlap E \<Longrightarrow> isStable (state (run E calls (new_Browser h)))"
    by (rule run_keeps_stable [rotated])
  then show ?thesis by (auto simp: isStable_def)
qed

theorem never_stable_with_target_differing_witness:
  "no_overlap calm
   \<and> \<not> inProcess (state (run calm [Init, Quit, Quit, Init] (new_Browser ''chrome'')))
   \<and> target (state (run calm [Init, Quit, Quit, Init] (new_Browser ''chrome'')))
       = current (state (run calm [Init, Quit, Quit, Init] (new_Browser ''chrome'')))
   \<and> \<not> (isStable (state (run quit_meanwhile [Init, Quit] (new_Browser ''chrome'')))
         \<and> target (state (run quit_meanwhile [Init, Quit] (new_Browser ''chrome'')))
             \<noteq> current (state (run quit_meanwhile [Init, Quit] (new_Browser ''chrome''))))"
  using calm_no_overlap
    never_stable_with_target_differing [of calm "[Init, Quit, Quit, Init]" "''chrome''"]
    never_stable_with_target_differing [of quit_meanwhile "[Init, Quit]" "''chrome''"]
  by blast

text \<open>
  C8. When the current state is open, stable or still in process, \<open>init\<close> fails with
  the error of its guard and the session is returned as it was: no event is added to
  the trace and the state is not changed.
\<close>

theorem init_rejects_open_session:
  assumes "current (state b) = Open"
  shows "init E b = (Inl (Error (if inProcess (state b)
           then ''init() fail: current state is `open`-`ing`''
           else ''init() fail: current state is `open`'')), b)"
  using assms by (simp add: init_def)

theorem init_rejects_open_session_witness:
  "init calm stable_open = (Inl (Error ''init() fail: current state is `open`''), stable_open)
   \<and> init calm transitioning
       = (Inl (Error ''init() fail: current state is `open`-`ing`''), transitioning)"
proof -
  have 1: "current (state stable_open) = Open" "\<not> inProcess (state stable_open)"
    by (simp_all add: stable_open_def)
  have 2: "current (state transitioning) = Open" "inProcess (state transitioning)"
    by (simp_all add: transitioning_def)
  show ?thesis
    using init_rejects_open_session [OF 1(1), of calm] init_rejects_open_session [OF 2(1), of calm]
      1(2) 2(2)
    by simp
qed

text \<open>
  What \<open>init\<close> does with a failure of its body: \<open>quit\<close> is called on the session
  the body left. When \<open>quit\<close> passes its guard it returns normally and the error of
  the body is thrown again; when the current state has become close in the meantime,
  the guard of \<open>quit\<close> throws, and that error is the one \<open>init\<close> ends with.
\<close>

lemma init_body_failed:
  assumes closed: "current (state b) = Close"
    and body: "init_body E
        (''https://'' @ (case cookie_hostname E (trace b) of None \<Rightarrow> ''null'' | Some h \<Rightarrow> h)
          @ ''/zh_CN/htmledition/v2/images/webwxgeticon.jpg'')
        (b\<lparr>state := setCurrent Open False (setTarget Open (state b))\<rparr>) = (Inl err, b2)"
  shows "current (state b2) = Open \<Longrightarrow> init E b = (Inl err, snd (quit E b2))"
    and "current (state b2) = Close \<Longrightarrow>
      init E b = (Inl (Error (if inProcess (state b2)
          then ''quit() fail: on a browser with state.current():`close` and inprocess():`true` ?''
          else ''quit() fail: on a already quit-ed browser'')), b2)"
proof -
  have i: "init E b = andThen (quit E) (\<lambda>_. throw err) b2"
    using closed body by (simp add: init_def Let_def try_catch_def)
  show "init E b = (Inl err, snd (quit E b2))" if "current (state b2) = Open"
    using quit_past_guard(1) [OF that, of E]
    by (cases "quit E b2") (simp add: i andThen_def throw_def)
  show "init E b = (Inl (Error (if inProcess (state b2)
          then ''quit() fail: on a browser with state.current():`close` and inprocess():`true` ?''
          else ''quit() fail: on a already quit-ed browser'')), b2)"
    if "current (state b2) = Close"
    using quit_guard [OF that, of E] by (simp add: i andThen_def)
qed

lemma calm_first_open:
  assumes "driver_get E = (\<lambda>tr u. Resolved)" "u \<noteq> []"
  shows "open E (Some u) b = (Inr (), await E [Set_timeout 60000, Driver_get u, Clear_timeout] b)"
proof -
  obtain c cs where "u = c # cs" using assms(2) by (cases u) auto
  then show ?thesis
    using assms(1) by (simp add: open_def numeral_3_eq_3 get_or_timeout_def TIMEOUT_def)
qed

lemma calm_default_open:
  assumes "driver_get E = (\<lambda>tr u. Resolved)" "cookie_hostname E = (\<lambda>tr. Some ''wx.qq.com'')"
  shows "open E None b
     = (Inr (), await E [Set_timeout 60000, Driver_get ''https://wx.qq.com'', Clear_timeout] b)"
  using assms by (simp add: open_def numeral_3_eq_3 get_or_timeout_def TIMEOUT_def)

lemma quit_meanwhile_body:
  "init_body quit_meanwhile ''https://wx.qq.com/zh_CN/htmledition/v2/images/webwxgeticon.jpg''
     ((new_Browser ''chrome'')\<lparr>state := \<lparr>target = Open, current = Open, inProcess = True\<rparr>\<rparr>)
   = (Inl (Error ''init() open() done, but state.target() is set to close after that. has to quit().''),
      \<lparr>state = \<lparr>target = Close, current = Close, inProcess = True\<rparr>,
       driver_set = True, head = ''chrome'',
       trace = [Driver_init, Set_timeout 60000,
                Driver_get ''https://wx.qq.com/zh_CN/htmledition/v2/images/webwxgeticon.jpg'',
                Clear_timeout, Cookie_load, Set_timeout 60000,
                Driver_get ''https://wx.qq.com'', Clear_timeout]\<rparr>)"
proof -
  let ?E = quit_meanwhile
  let ?j = "''https://wx.qq.com/zh_CN/htmledition/v2/images/webwxgeticon.jpg''"
  let ?opening = "\<lparr>target = Open, current = Open, inProcess = True\<rparr>"
  let ?b1 = "(new_Browser ''chrome'')\<lparr>state := ?opening\<rparr>"
  let ?b2 = "\<lparr>state = ?opening, driver_set = True, head = ''chrome'', trace = [Driver_init]\<rparr>"
  let ?b3 = "\<lparr>state = ?opening, driver_set = True, head = ''chrome'',
      trace = [Driver_init, Set_timeout 60000, Driver_get ?j, Clear_timeout]\<rparr>"
  let ?b4 = "\<lparr>state = ?opening, driver_set = True, head = ''chrome'',
      trace = [Driver_init, Set_timeout 60000, Driver_get ?j, Clear_timeout, Cookie_load]\<rparr>"
  let ?b5 = "\<lparr>state = \<lparr>target = Close, current = Close, inProcess = True\<rparr>,
      driver_set = True, head = ''chrome'',
      trace = [Driver_init, Set_timeout 60000, Driver_get ?j, Clear_timeout, Cookie_load,
               Set_timeout 60000, Driver_get ''https://wx.qq.com'', Clear_timeout]\<rparr>"
  have g: "driver_get ?E = (\<lambda>tr u. Resolved)"
    and h: "cookie_hostname ?E = (\<lambda>tr. Some ''wx.qq.com'')"
    by (simp_all add: quit_meanwhile_def calm_def)
  have 1: "drv_init ?E ?b1 = (Inr (), ?b2)"
    by (simp add: drv_init_def settle_def await_def new_Browser_def quit_meanwhile_def calm_def)
  have 2: "open ?E (Some ?j) ?b2 = (Inr (), ?b3)"
    by (simp add: calm_first_open [OF g]) (simp add: await_def quit_meanwhile_def)
  have 3: "try_catch (loadCookie ?E) (\<lambda>e. resolve ()) ?b3 = (Inr (), ?b4)"
    by (simp add: try_catch_def loadCookie_def settle_def await_def quit_meanwhile_def calm_def)
  have 4: "open ?E None ?b4 = (Inr (), ?b5)"
    by (simp add: calm_default_open [OF g h])
       (simp add: await_def quit_meanwhile_def quit_begin_def setCurrent_def setTarget_def)
  show ?thesis
    by (simp add: init_body_def andThen_def 1 2 3 4)
qed

text \<open>
  With no other caller in between, the session the failed body leaves is still on
  its way to open, so \<open>quit\<close> runs to its end and the error of the body is the one
  thrown again.
\<close>

lemma init_failure_without_overlap:
  assumes seq: "no_overlap E" and closed: "current (state b) = Close"
    and body: "init_body E
        (''https://'' @ (case cookie_hostname E (trace b) of None \<Rightarrow> ''null'' | Some h \<Rightarrow> h)
          @ ''/zh_CN/htmledition/v2/images/webwxgeticon.jpg'')
        (b\<lparr>state := setCurrent Open False (setTarget Open (state b))\<rparr>) = (Inl err, b2)"
  shows "init E b = (Inl err, snd (quit E b2))"
proof -
  let ?b1 = "b\<lparr>state := setCurrent Open False (setTarget Open (state b))\<rparr>"
  let ?j = "''https://'' @ (case cookie_hostname E (trace b) of None \<Rightarrow> ''null'' | Some h \<Rightarrow> h)
          @ ''/zh_CN/htmledition/v2/images/webwxgeticon.jpg''"
  have "case init_body E ?j ?b1 of
        (Inr v, b') \<Rightarrow> target (state ?b1) = Open \<and> state b' = setCurrent Open True (state ?b1)
      | (Inl e, b') \<Rightarrow> state b' = state ?b1"
    by (rule commits_openD [OF init_body_commits [OF seq]])
  then have "state b2 = state ?b1" unfolding body by simp
  then have "current (state b2) = Open" by (simp add: setCurrent_def)
  then show ?thesis by (rule init_body_failed(1) [OF closed body])
qed

text \<open>
  When the other caller has set nothing but the target, \<open>quit\<close> passes its guard,
  the driver is shut down, and \<open>init\<close> ends with the error of line 113.
\<close>

lemma init_target_flipped_aborts:
  "fst (init target_flipped (new_Browser ''chrome''))
     = Inl (Error ''init() open() done, but state.target() is set to close after that. has to quit().'')
   \<and> current (state (snd (init target_flipped (new_Browser ''chrome'')))) = Close
   \<and> \<not> inProcess (state (snd (init target_flipped (new_Browser ''chrome''))))"
proof -
  let ?E = target_flipped
  let ?b = "new_Browser ''chrome''"
  let ?j = "''https://wx.qq.com/zh_CN/htmledition/v2/images/webwxgeticon.jpg''"
  let ?opening = "\<lparr>target = Open, current = Open, inProcess = True\<rparr>"
  let ?b1 = "?b\<lparr>state := ?opening\<rparr>"
  let ?b2 = "\<lparr>state = ?opening, driver_set = True, head = ''chrome'', trace = [Driver_init]\<rparr>"
  let ?b3 = "\<lparr>state = ?opening, driver_set = True, head = ''chrome'',
      trace = [Driver_init, Set_timeout 60000, Driver_get ?j, Clear_timeout]\<rparr>"
  let ?b4 = "\<lparr>state = ?opening, driver_set = True, head = ''chrome'',
      trace = [Driver_init, Set_timeout 60000, Driver_get ?j, Clear_timeout, Cookie_load]\<rparr>"
  let ?b5 = "\<lparr>state = \<lparr>target = Close, current = Open, inProcess = True\<rparr>,
      driver_set = True, head = ''chrome'',
      trace = [Driver_init, Set_timeout 60000, Driver_get ?j, Clear_timeout, Cookie_load,
               Set_timeout 60000, Driver_get ''https://wx.qq.com'', Clear_timeout]\<rparr>"
  let ?abort = "Error ''init() open() done, but state.target() is set to close after that. has to quit().''"
  have g: "driver_get ?E = (\<lambda>tr u. Resolved)"
    and h: "cookie_hostname ?E = (\<lambda>tr. Some ''wx.qq.com'')"
    by (simp_all add: target_flipped_def calm_def)
  have 1: "drv_init ?E ?b1 = (Inr (), ?b2)"
    by (simp add: drv_init_def settle_def await_def new_Browser_def target_flipped_def calm_def)
  have 2: "open ?E (Some ?j) ?b2 = (Inr (), ?b3)"
    by (simp add: calm_first_open [OF g]) (simp add: await_def target_flipped_def)
  have 3: "try_catch (loadCookie ?E) (\<lambda>e. resolve ()) ?b3 = (Inr (), ?b4)"
    by (simp add: try_catch_def loadCookie_def settle_def await_def target_flipped_def calm_def)
  have 4: "open ?E None ?b4 = (Inr (), ?b5)"
    by (simp add: calm_default_open [OF g h])
       (simp add: await_def target_flipped_def setTarget_def)
  have 5: "init_body ?E ?j ?b1 = (Inl ?abort, ?b5)"
    by (simp add: init_body_def andThen_def 1 2 3 4)
  have c: "current (state ?b) = Close" by (simp add: new_Browser_def new_StateSwitch_def)
  have body: "init_body ?E
        (''https://'' @ (case cookie_hostname ?E (trace ?b) of None \<Rightarrow> ''null'' | Some h \<Rightarrow> h)
          @ ''/zh_CN/htmledition/v2/images/webwxgeticon.jpg'')
        (?b\<lparr>state := setCurrent Open False (setTarget Open (state ?b))\<rparr>) = (Inl ?abort, ?b5)"
    using 5 by (simp add: h new_Browser_def new_StateSwitch_def setCurrent_def setTarget_def)
  have o: "current (state ?b5) = Open" by simp
  have "init ?E ?b = (Inl ?abort, snd (quit ?E ?b5))"
    using o by (rule init_body_failed(1) [OF c body])
  then show ?thesis
    using quit_past_guard(2,3) [OF o, of ?E] by simp
qed

text \<open>
  C7, at the failing input. A fresh session, every collaborator succeeding; while
  \<open>init\<close> is suspended in its second navigation another caller starts \<open>quit()\<close>.
  The check of line 112 finds the target close and throws; the \<open>catch\<close> calls
  \<open>quit()\<close>, whose guard throws because the current state is already close; so
  \<open>init\<close> ends with the error of that guard, not with the error it threw, and the
  second \<open>quit\<close> has called nothing: the trace ends with the navigation.
\<close>

theorem init_overlapping_quit_raises_guard_error:
  "init quit_meanwhile (new_Browser ''chrome'')
   = (Inl (Error ''quit() fail: on a browser with state.current():`close` and inprocess():`true` ?''),
      \<lparr>state = \<lparr>target = Close, current = Close, inProcess = True\<rparr>,
       driver_set = True, head = ''chrome'',
       trace = [Driver_init, Set_timeout 60000,
                Driver_get ''https://wx.qq.com/zh_CN/htmledition/v2/images/webwxgeticon.jpg'',
                Clear_timeout, Cookie_load, Set_timeout 60000,
                Driver_get ''https://wx.qq.com'', Clear_timeout]\<rparr>)"
proof -
  let ?b = "new_Browser ''chrome''"
  have c: "current (state ?b) = Close" by (simp add: new_Browser_def new_StateSwitch_def)
  have body: "init_body quit_meanwhile
        (''https://'' @ (case cookie_hostname quit_meanwhile (trace ?b) of None \<Rightarrow> ''null'' | Some h \<Rightarrow> h)
          @ ''/zh_CN/htmledition/v2/images/webwxgeticon.jpg'')
        (?b\<lparr>state := setCurrent Open False (setTarget Open (state ?b))\<rparr>)
      = (Inl (Error ''init() open() done, but state.target() is set to close after that. has to quit().''),
      \<lparr>state = \<lparr>target = Close, current = Close, inProcess = True\<rparr>,
       driver_set = True, head = ''chrome'',
       trace = [Driver_init, Set_timeout 60000,
                Driver_get ''https://wx.qq.com/zh_CN/htmledition/v2/images/webwxgeticon.jpg'',
                Clear_timeout, Cookie_load, Set_timeout 60000,
                Driver_get ''https://wx.qq.com'', Clear_timeout]\<rparr>)"
    using quit_meanwhile_body
    by (simp add: quit_meanwhile_def calm_def new_Browser_def new_StateSwitch_def
        setCurrent_def setTarget_def)
  show ?thesis
    using init_body_failed(2) [OF c body] by simp
qed

end
